theory Spec2Isabelle
  imports Complex_Main
begin

section \<open>Market index comparison: the time-series pipeline of \<open>app.py\<close>\<close>

text \<open>
  The program downloads daily prices for the selected indices, cleans each series
  (\<open>ffill().dropna()\<close>), and derives a normalised series, period returns, cumulative
  returns, a rolling 20-day volatility and a summary row from each clean series.
  The pandas and numpy operations it calls are embedded here as list functions.
\<close>

subsection \<open>float64 values\<close>

text \<open>
  A pandas \<open>float64\<close> cell is a finite number, one of the two infinities, or NaN
  (which pandas also uses for a missing value). Division by zero does not raise in
  numpy: it yields an infinity, or NaN for \<open>0/0\<close>. These special values are modelled
  as IEEE 754 defines them. Arithmetic on finite values is exact arithmetic on
  \<open>real\<close>: rounding, overflow to infinity and the sign of zero are outside the model.
  So a computed value can differ from the program's in its last places (in
  \<open>float64\<close>, \<open>1e-15 / 100 - 1\<close> is exactly \<open>-1.0\<close>; here it is not), and its rendering
  with a fixed number of decimals can differ where that moves it across a tie.
\<close>

datatype f64 = Fin real | PInf | NInf | NaN

fun fneg :: "f64 \<Rightarrow> f64" where
  "fneg (Fin a) = Fin (- a)"
| "fneg PInf = NInf"
| "fneg NInf = PInf"
| "fneg NaN = NaN"

fun fadd :: "f64 \<Rightarrow> f64 \<Rightarrow> f64" where
  "fadd (Fin a) (Fin b) = Fin (a + b)"
| "fadd NaN y = NaN"
| "fadd x NaN = NaN"
| "fadd PInf NInf = NaN"
| "fadd NInf PInf = NaN"
| "fadd PInf y = PInf"
| "fadd NInf y = NInf"
| "fadd x PInf = PInf"
| "fadd x NInf = NInf"

definition fsub :: "f64 \<Rightarrow> f64 \<Rightarrow> f64" where
  "fsub x y = fadd x (fneg y)"

text \<open>The infinity with the sign of a non-zero finite factor, times \<open>+inf\<close>.\<close>

definition signed_inf :: "real \<Rightarrow> f64" where
  "signed_inf a = (if a = 0 then NaN else if 0 < a then PInf else NInf)"

fun fmul :: "f64 \<Rightarrow> f64 \<Rightarrow> f64" where
  "fmul (Fin a) (Fin b) = Fin (a * b)"
| "fmul NaN y = NaN"
| "fmul x NaN = NaN"
| "fmul (Fin a) PInf = signed_inf a"
| "fmul (Fin a) NInf = signed_inf (- a)"
| "fmul PInf (Fin b) = signed_inf b"
| "fmul NInf (Fin b) = signed_inf (- b)"
| "fmul PInf PInf = PInf"
| "fmul PInf NInf = NInf"
| "fmul NInf PInf = NInf"
| "fmul NInf NInf = PInf"

fun fdiv :: "f64 \<Rightarrow> f64 \<Rightarrow> f64" where
  "fdiv (Fin a) (Fin b) = (if b = 0 then signed_inf a else Fin (a / b))"
| "fdiv NaN y = NaN"
| "fdiv x NaN = NaN"
| "fdiv (Fin a) PInf = Fin 0"
| "fdiv (Fin a) NInf = Fin 0"
| "fdiv PInf (Fin b) = (if 0 \<le> b then PInf else NInf)"
| "fdiv NInf (Fin b) = (if 0 \<le> b then NInf else PInf)"
| "fdiv PInf y = NaN"
| "fdiv NInf y = NaN"

fun fsqrt :: "f64 \<Rightarrow> f64" where
  "fsqrt (Fin a) = (if a < 0 then NaN else Fin (sqrt a))"
| "fsqrt PInf = PInf"
| "fsqrt NInf = NaN"
| "fsqrt NaN = NaN"

fun isna :: "f64 \<Rightarrow> bool" where
  "isna NaN = True"
| "isna x = False"

fun isinf :: "f64 \<Rightarrow> bool" where
  "isinf PInf = True"
| "isinf NInf = True"
| "isinf x = False"

fun is_fin :: "f64 \<Rightarrow> bool" where
  "is_fin (Fin a) = True"
| "is_fin x = False"

text \<open>\<open>numpy.sum\<close> and \<open>numpy.prod\<close> over a column, left to right.\<close>

definition fsum :: "f64 list \<Rightarrow> f64" where
  "fsum xs = foldl fadd (Fin 0) xs"

definition fprod :: "f64 list \<Rightarrow> f64" where
  "fprod xs = foldl fmul (Fin 1) xs"

subsection \<open>Series operations of pandas\<close>

text \<open>
  A series is the list of its values in index (date) order. \<open>Series.dropna\<close> removes
  the NaN cells, \<open>Series.fillna v\<close> replaces them by \<open>v\<close>.
\<close>

definition dropna :: "f64 list \<Rightarrow> f64 list" where
  "dropna xs = filter (\<lambda>x. \<not> isna x) xs"

definition fillna :: "f64 \<Rightarrow> f64 list \<Rightarrow> f64 list" where
  "fillna v xs = map (\<lambda>x. if isna x then v else x) xs"

text \<open>
  \<open>Series.ffill\<close>: each missing cell takes the last valid value before it; the loop
  carries that value, and a missing cell with nothing before it stays missing.
\<close>

fun ffill_from :: "f64 \<Rightarrow> f64 list \<Rightarrow> f64 list" where
  "ffill_from prev [] = []"
| "ffill_from prev (x # xs) =
     (if isna x then prev # ffill_from prev xs else x # ffill_from x xs)"

definition ffill :: "f64 list \<Rightarrow> f64 list" where
  "ffill xs = ffill_from NaN xs"

text \<open>
  \<open>Series.pct_change()\<close> is \<open>s / s.shift(1) - 1\<close>: the first cell has no predecessor and
  is NaN, every later cell is \<open>s[i] / s[i-1] - 1\<close>. (Older pandas versions forward-fill
  the series first; the program calls it on series that have no NaN left, where
  that changes nothing.)
\<close>

fun pct_from :: "f64 \<Rightarrow> f64 list \<Rightarrow> f64 list" where
  "pct_from prev [] = []"
| "pct_from prev (x # xs) = fsub (fdiv x prev) (Fin 1) # pct_from x xs"

fun pct_change :: "f64 list \<Rightarrow> f64 list" where
  "pct_change [] = []"
| "pct_change (x # xs) = NaN # pct_from x xs"

text \<open>
  \<open>Series.cumprod()\<close> (\<open>skipna=True\<close>): NaN cells are replaced by 1 for the running
  product of \<open>numpy.cumprod\<close> and put back as NaN in the result.
\<close>

fun np_cumprod_from :: "f64 \<Rightarrow> f64 list \<Rightarrow> f64 list" where
  "np_cumprod_from acc [] = []"
| "np_cumprod_from acc (x # xs) = fmul acc x # np_cumprod_from (fmul acc x) xs"

fun np_cumprod :: "f64 list \<Rightarrow> f64 list" where
  "np_cumprod [] = []"
| "np_cumprod (x # xs) = x # np_cumprod_from x xs"

definition cumprod :: "f64 list \<Rightarrow> f64 list" where
  "cumprod xs =
     map (\<lambda>(x, r). if isna x then NaN else r)
       (zip xs (np_cumprod (map (\<lambda>x. if isna x then Fin 1 else x) xs)))"

subsection \<open>Errors\<close>

datatype py_error = IndexError | KeyError

subsection \<open>\<open>normalize_series\<close>\<close>

text \<open>
  \<open>(series / series.iloc[0]) * 100\<close>. \<open>iloc[0]\<close> raises IndexError on an empty series;
  the division itself never raises.
\<close>

definition iloc0 :: "f64 list \<Rightarrow> py_error + f64" where
  "iloc0 xs = (case xs of [] \<Rightarrow> Inl IndexError | x # _ \<Rightarrow> Inr x)"

definition iloc_last :: "f64 list \<Rightarrow> py_error + f64" where
  "iloc_last xs = (if xs = [] then Inl IndexError else Inr (last xs))"

definition normalize_series :: "f64 list \<Rightarrow> py_error + f64 list" where
  "normalize_series series =
     (case iloc0 series of
        Inl e \<Rightarrow> Inl e
      | Inr base \<Rightarrow> Inr (map (\<lambda>x. fmul (fdiv x base) (Fin 100)) series))"

subsection \<open>Clean price series\<close>

text \<open>
  The cleaner is the last line of \<open>fetch_data\<close>: \<open>df.ffill().dropna()\<close> on the selected
  price column. A raw price is a finite number or missing (NaN).
\<close>

definition cleaner :: "f64 list \<Rightarrow> f64 list" where
  "cleaner col = dropna (ffill col)"

text \<open>A clean series: every cell is a finite price.\<close>

definition clean_series :: "f64 list \<Rightarrow> bool" where
  "clean_series xs = list_all is_fin xs"

text \<open>The price of a finite cell.\<close>

fun price :: "f64 \<Rightarrow> real" where
  "price (Fin a) = a"
| "price x = 0"

subsection \<open>Return series\<close>

text \<open>
  Both the cumulative-returns loop and the volatility loop start from
  \<open>series.pct_change().fillna(0)\<close>.
\<close>

definition returns :: "f64 list \<Rightarrow> f64 list" where
  "returns series = fillna (Fin 0) (pct_change series)"

text \<open>\<open>cum_returns = (1 + returns).cumprod() - 1\<close>\<close>

definition cum_returns :: "f64 list \<Rightarrow> f64 list" where
  "cum_returns series =
     map (\<lambda>c. fsub c (Fin 1)) (cumprod (map (\<lambda>r. fadd (Fin 1) r) (returns series)))"

subsection \<open>Mean and standard deviation of a series\<close>

text \<open>
  \<open>Series.mean()\<close> and \<open>Series.std()\<close> skip NaN cells (\<open>skipna=True\<close>). The mean of no
  observation is NaN. \<open>std\<close> has \<open>ddof=1\<close>: with \<open>count\<close> observations left it is NaN
  when \<open>count <= 1\<close>, and otherwise the square root of
  \<open>sum((avg - x) ** 2) / (count - 1)\<close> with \<open>avg = sum(x) / count\<close>.
\<close>

definition pd_mean :: "f64 list \<Rightarrow> f64" where
  "pd_mean xs =
     (let values = dropna xs; count = length values
      in if count = 0 then NaN else fdiv (fsum values) (Fin (real count)))"

definition pd_var :: "f64 list \<Rightarrow> f64" where
  "pd_var xs =
     (let values = dropna xs; count = length values
      in if count \<le> 1 then NaN
         else let avg = fdiv (fsum values) (Fin (real count));
                  sqr = map (\<lambda>x. fmul (fsub avg x) (fsub avg x)) values
              in fdiv (fsum sqr) (Fin (real (count - 1))))"

definition pd_std :: "f64 list \<Rightarrow> f64" where
  "pd_std xs = fsqrt (pd_var xs)"

subsection \<open>Rolling volatility\<close>

text \<open>
  \<open>daily_returns.rolling(window=20).std() * 100\<close>. The window ending at row \<open>i\<close> holds the
  rows \<open>max(0, i-w+1) .. i\<close>. Rolling aggregations first turn the infinities into NaN;
  \<open>min_periods\<close> defaults to the window size, and a window with fewer than
  \<open>min_periods\<close> observations, or with no more than \<open>ddof = 1\<close> of them, gives NaN.
  Otherwise the variance is the sum of squared deviations from the mean of the
  observations over \<open>nobs - 1\<close>; pandas maintains both by adding and removing one
  observation at a time, which in exact arithmetic gives the same numbers. The
  standard deviation is \<open>zsqrt\<close> of the variance: its square root, with 0 for a
  negative variance.
\<close>

definition window :: "nat \<Rightarrow> nat \<Rightarrow> 'a list \<Rightarrow> 'a list" where
  "window w i xs = drop (Suc i - w) (take (Suc i) xs)"

definition inf_to_nan :: "f64 \<Rightarrow> f64" where
  "inf_to_nan x = (if isinf x then NaN else x)"

definition roll_var :: "nat \<Rightarrow> f64 list \<Rightarrow> nat \<Rightarrow> f64" where
  "roll_var w values i =
     (let obs = map price (dropna (window w i (map inf_to_nan values)));
          nobs = length obs
      in if w \<le> nobs \<and> 1 < nobs
         then let mean_x = sum_list obs / real nobs;
                  ssqdm_x = sum_list (map (\<lambda>x. (x - mean_x) * (x - mean_x)) obs)
              in Fin (ssqdm_x / (real nobs - 1))
         else NaN)"

fun zsqrt :: "f64 \<Rightarrow> f64" where
  "zsqrt (Fin a) = (if a < 0 then Fin 0 else Fin (sqrt a))"
| "zsqrt x = fsqrt x"

definition rolling_std :: "nat \<Rightarrow> f64 list \<Rightarrow> f64 list" where
  "rolling_std w values = map (\<lambda>i. zsqrt (roll_var w values i)) [0..<length values]"

definition rolling_vol :: "f64 list \<Rightarrow> f64 list" where
  "rolling_vol series = map (\<lambda>v. fmul v (Fin 100)) (rolling_std 20 (returns series))"

text \<open>
  The unbiased sample standard deviation as a formula on \<open>float64\<close> values: the
  square root of the sum of squared deviations from the arithmetic mean, over
  \<open>N - 1\<close>. The rolling volatility is compared with it.
\<close>

definition sample_std :: "f64 list \<Rightarrow> f64" where
  "sample_std xs =
     (let n = length xs; mean_x = fdiv (fsum xs) (Fin (real n))
      in fsqrt (fdiv (fsum (map (\<lambda>x. fmul (fsub x mean_x) (fsub x mean_x)) xs))
                     (Fin (real n - 1))))"

subsection \<open>Summary row\<close>

text \<open>
  The numbers of one row of the summary table, as the loop computes them before
  formatting. \<open>series.iloc[0]\<close> and \<open>series.iloc[-1]\<close> raise IndexError on an empty
  series.
\<close>

record summary_stats =
  start_price :: f64
  end_price :: f64
  total_return :: f64
  avg_daily_return :: f64
  volatility :: f64

definition summary_of :: "f64 list \<Rightarrow> py_error + summary_stats" where
  "summary_of series =
     (case iloc0 series of
        Inl e \<Rightarrow> Inl e
      | Inr start \<Rightarrow>
          (case iloc_last series of
             Inl e \<Rightarrow> Inl e
           | Inr end \<Rightarrow>
               (let daily_returns = dropna (pct_change series)
                in Inr \<lparr>start_price = start,
                        end_price = end,
                        total_return = fmul (fsub (fdiv end start) (Fin 1)) (Fin 100),
                        avg_daily_return = fmul (pd_mean daily_returns) (Fin 100),
                        volatility = fmul (pd_std daily_returns) (Fin 100)\<rparr>)))"

text \<open>
  The cells are rendered with \<open>f"{x:.2f}"\<close> and \<open>f"{x:.3f}"\<close>. A rendered cell is the
  text \<open>nan\<close>, \<open>inf\<close> or \<open>-inf\<close>, or a sign and a decimal with a fixed number of
  places: \<open>Decimal neg m k\<close> stands for the digits of \<open>m / 10^k\<close> with \<open>k\<close> places, after a
  minus sign when \<open>neg\<close>. Rounding is to the nearest such decimal, ties to even.
\<close>

datatype cell = Decimal bool nat nat | TextNan | TextInf bool

definition round_half_even :: "real \<Rightarrow> int" where
  "round_half_even y =
     (let f = \<lfloor>y\<rfloor>; d = y - of_int f
      in if d < 1 / 2 then f else if 1 / 2 < d then f + 1 else if even f then f else f + 1)"

fun py_fixed :: "nat \<Rightarrow> f64 \<Rightarrow> cell" where
  "py_fixed k (Fin x) = Decimal (x < 0) (nat (round_half_even (\<bar>x\<bar> * 10 ^ k))) k"
| "py_fixed k PInf = TextInf False"
| "py_fixed k NInf = TextInf True"
| "py_fixed k NaN = TextNan"

subsection \<open>The indices and the download\<close>

datatype index = SP500 | NASDAQ | DowJones | Russell2000 | NYSEComposite

fun INDEX_TICKERS :: "index \<Rightarrow> string" where
  "INDEX_TICKERS SP500 = ''^GSPC''"
| "INDEX_TICKERS NASDAQ = ''^IXIC''"
| "INDEX_TICKERS DowJones = ''^DJI''"
| "INDEX_TICKERS Russell2000 = ''^RUT''"
| "INDEX_TICKERS NYSEComposite = ''^NYA''"

text \<open>
  What \<open>yf.download\<close> returns: a data frame whose columns are named by a string, or by
  a pair of strings when the columns are a \<open>MultiIndex\<close>. \<open>df.empty\<close> holds when the
  frame has no column or no row.
\<close>

datatype frame =
  Flat "(string \<times> f64 list) list"
| Multi "((string \<times> string) \<times> f64 list) list"

fun frame_empty :: "frame \<Rightarrow> bool" where
  "frame_empty (Flat cs) = list_all (\<lambda>c. snd c = []) cs"
| "frame_empty (Multi cs) = list_all (\<lambda>c. snd c = []) cs"

text \<open>What the program shows with \<open>st.warning\<close> and \<open>st.error\<close>, with the ticker named.\<close>

datatype notice =
  WarnNoData string
| ErrMultiClose string
| ErrNoPriceColumn string
| WarnSelectIndex

subsection \<open>\<open>fetch_data\<close>\<close>

text \<open>
  The downloaded frame is an argument. The result is the notices shown and the
  series returned.
\<close>

definition fetch_data :: "string \<Rightarrow> frame \<Rightarrow> notice list \<times> f64 list" where
  "fetch_data ticker df =
     (if frame_empty df then ([WarnNoData ticker], [])
      else case df of
             Multi cs \<Rightarrow>
               (case map_of cs (''Close'', ticker) of
                  None \<Rightarrow> ([ErrMultiClose ticker], [])
                | Some col \<Rightarrow> ([], cleaner col))
           | Flat cs \<Rightarrow>
               (case map_of cs ''Adj Close'' of
                  Some col \<Rightarrow> ([], cleaner col)
                | None \<Rightarrow>
                    (case map_of cs ''Close'' of
                       Some col \<Rightarrow> ([], cleaner col)
                     | None \<Rightarrow> ([ErrNoPriceColumn ticker], []))))"

subsection \<open>The page\<close>

text \<open>
  One run of the script, for the selected indices, the date range fixed inside
  \<open>download\<close> (what \<open>yf.download\<close> returns for each ticker), and the state of the
  \<open>Show raw data\<close> checkbox. \<open>fetch_data\<close> is cached on its arguments, so its second
  call for a ticker returns the same series and shows the same notices again.

  The page lists the notices and what was rendered: the traces of the three charts,
  the rows of the summary table and the columns of the raw-data table (their
  alignment on the union of their dates is outside the model). A part is \<open>None\<close>
  when the script did not reach it; an exception that nothing catches stops the
  script, and the page keeps what was rendered before.
\<close>

record summary_row =
  Index :: index
  Start_Price :: cell
  End_Price :: cell
  Total_Return :: cell
  Avg_Daily_Return :: cell
  Volatility :: cell

record page =
  notices :: "notice list"
  norm_chart :: "(index \<times> f64 list) list option"
  cum_chart :: "(index \<times> f64 list) list option"
  vol_chart :: "(index \<times> f64 list) list option"
  summary_table :: "summary_row list option"
  raw_table :: "(index \<times> f64 list) list option"
  uncaught :: "py_error option"

text \<open>Assignment \<open>d[k] = v\<close> to a dict, which keeps insertion order.\<close>

fun dict_set :: "'k \<Rightarrow> 'v \<Rightarrow> ('k \<times> 'v) list \<Rightarrow> ('k \<times> 'v) list" where
  "dict_set k v [] = [(k, v)]"
| "dict_set k v ((k', v') # kvs) =
     (if k = k' then (k, v) # kvs else (k', v') # dict_set k v kvs)"

text \<open>
  The loop over \<open>selected_indices\<close> (lines 63 to 76): the state is the notices shown so
  far, \<open>price_data\<close> and the traces of \<open>fig\<close>.
\<close>

fun main_loop ::
  "(string \<Rightarrow> frame) \<Rightarrow> index list \<Rightarrow>
   notice list \<times> (index \<times> f64 list) list \<times> (index \<times> f64 list) list \<Rightarrow>
   py_error \<times> notice list + notice list \<times> (index \<times> f64 list) list \<times> (index \<times> f64 list) list"
where
  "main_loop download [] st = Inr st"
| "main_loop download (index # rest) (shown, price_data, fig) =
     (let ticker = INDEX_TICKERS index;
          (msgs, data) = fetch_data ticker (download ticker)
      in if data = [] then main_loop download rest (shown @ msgs, price_data, fig)
         else case normalize_series data of
                Inl e \<Rightarrow> Inl (e, shown @ msgs)
              | Inr norm_data \<Rightarrow>
                  main_loop download rest
                    (shown @ msgs, dict_set index data price_data, fig @ [(index, norm_data)]))"

text \<open>The summary loop (lines 141 to 155).\<close>

definition summary_row_of :: "index \<Rightarrow> f64 list \<Rightarrow> py_error + summary_row" where
  "summary_row_of index series =
     (case summary_of series of
        Inl e \<Rightarrow> Inl e
      | Inr s \<Rightarrow>
          Inr \<lparr>Index = index,
               Start_Price = py_fixed 2 (start_price s),
               End_Price = py_fixed 2 (end_price s),
               Total_Return = py_fixed 2 (total_return s),
               Avg_Daily_Return = py_fixed 3 (avg_daily_return s),
               Volatility = py_fixed 3 (volatility s)\<rparr>)"

fun summary_loop :: "(index \<times> f64 list) list \<Rightarrow> py_error + summary_row list" where
  "summary_loop [] = Inr []"
| "summary_loop ((index, series) # rest) =
     (case summary_row_of index series of
        Inl e \<Rightarrow> Inl e
      | Inr row \<Rightarrow>
          (case summary_loop rest of
             Inl e \<Rightarrow> Inl e
           | Inr rows \<Rightarrow> Inr (row # rows)))"

text \<open>
  The dict comprehension of the raw-data export (line 165): every selected index,
  with no test for an empty series.
\<close>

fun raw_columns ::
  "(string \<Rightarrow> frame) \<Rightarrow> index list \<Rightarrow> notice list \<times> (index \<times> f64 list) list \<Rightarrow>
   notice list \<times> (py_error + (index \<times> f64 list) list)"
where
  "raw_columns download [] (shown, cols) = (shown, Inr cols)"
| "raw_columns download (index # rest) (shown, cols) =
     (let ticker = INDEX_TICKERS index;
          (msgs, data) = fetch_data ticker (download ticker)
      in case normalize_series data of
           Inl e \<Rightarrow> (shown @ msgs, Inl e)
         | Inr col \<Rightarrow> raw_columns download rest (shown @ msgs, dict_set index col cols))"

definition main :: "(string \<Rightarrow> frame) \<Rightarrow> index list \<Rightarrow> bool \<Rightarrow> page" where
  "main download selected_indices show_raw =
     (if selected_indices = [] then
        \<lparr>notices = [WarnSelectIndex], norm_chart = None, cum_chart = None, vol_chart = None,
         summary_table = None, raw_table = None, uncaught = None\<rparr>
      else case main_loop download selected_indices ([], [], []) of
        Inl (e, shown) \<Rightarrow>
          \<lparr>notices = shown, norm_chart = None, cum_chart = None, vol_chart = None,
           summary_table = None, raw_table = None, uncaught = Some e\<rparr>
      | Inr (shown, price_data, fig) \<Rightarrow>
          (let fig_cum = map (\<lambda>(index, series).
                 (index, map (\<lambda>c. fmul c (Fin 100)) (cum_returns series))) price_data;
               fig_vol = map (\<lambda>(index, series). (index, rolling_vol series)) price_data
           in case summary_loop price_data of
                Inl e \<Rightarrow>
                  \<lparr>notices = shown, norm_chart = Some fig, cum_chart = Some fig_cum,
                   vol_chart = Some fig_vol, summary_table = None, raw_table = None,
                   uncaught = Some e\<rparr>
              | Inr rows \<Rightarrow>
                  (if \<not> show_raw then
                     \<lparr>notices = shown, norm_chart = Some fig, cum_chart = Some fig_cum,
                      vol_chart = Some fig_vol, summary_table = Some rows, raw_table = None,
                      uncaught = None\<rparr>
                   else case raw_columns download selected_indices (shown, []) of
                     (shown', Inl e) \<Rightarrow>
                       \<lparr>notices = shown', norm_chart = Some fig, cum_chart = Some fig_cum,
                        vol_chart = Some fig_vol, summary_table = Some rows,
                        raw_table = None, uncaught = Some e\<rparr>
                   | (shown', Inr cols) \<Rightarrow>
                       \<lparr>notices = shown', norm_chart = Some fig, cum_chart = Some fig_cum,
                        vol_chart = Some fig_vol, summary_table = Some rows,
                        raw_table = Some cols, uncaught = None\<rparr>)))"

text \<open>
  Shorthand: what \<open>fetch_data\<close> gives for an index, and the selected indices whose
  series is not empty.
\<close>

abbreviation fetched :: "(string \<Rightarrow> frame) \<Rightarrow> index \<Rightarrow> notice list \<times> f64 list" where
  "fetched download index \<equiv> fetch_data (INDEX_TICKERS index) (download (INDEX_TICKERS index))"

abbreviation kept :: "(string \<Rightarrow> frame) \<Rightarrow> index list \<Rightarrow> index list" where
  "kept download selected \<equiv> filter (\<lambda>i. snd (fetched download i) \<noteq> []) selected"

section \<open>Properties\<close>

subsection \<open>The cleaner\<close>

lemma ffill_from_length: "length (ffill_from prev xs) = length xs"
  by (induction xs arbitrary: prev) auto

lemma ffill_from_no_na: "\<not> isna prev \<Longrightarrow> dropna (ffill_from prev xs) = ffill_from prev xs"
  by (induction xs arbitrary: prev) (auto simp: dropna_def)

lemma ffill_from_nth:
  "\<not> isna prev \<Longrightarrow> i < length xs \<Longrightarrow>
   ffill_from prev xs ! i = last (prev # dropna (take (Suc i) xs))"
proof (induction xs arbitrary: prev i)
  case Nil
  then show ?case by simp
next
  case (Cons x xs)
  show ?case
  proof (cases i)
    case 0
    then show ?thesis by (simp add: dropna_def)
  next
    case (Suc j)
    with Cons.prems have j: "j < length xs" by simp
    show ?thesis
    proof (cases "isna x")
      case True
      with Cons.IH [OF Cons.prems(1) j] Suc show ?thesis
        by (simp add: dropna_def)
    next
      case False
      with Cons.IH [OF False j] Suc show ?thesis
        by (simp add: dropna_def)
    qed
  qed
qed

lemma cleaner_dropWhile:
  "cleaner xs = (case dropWhile isna xs of [] \<Rightarrow> [] | y # ys \<Rightarrow> y # ffill_from y ys)"
proof (induction xs)
  case Nil
  then show ?case by (simp add: cleaner_def ffill_def dropna_def)
next
  case (Cons x xs)
  show ?case
  proof (cases "isna x")
    case True
    then have "x = NaN" by (cases x) auto
    with Cons True show ?thesis by (simp add: cleaner_def ffill_def dropna_def)
  next
    case False
    then show ?thesis
      using ffill_from_no_na [OF False, of xs]
      by (simp add: cleaner_def ffill_def dropna_def)
  qed
qed

lemma cleaner_length: "length (cleaner xs) = length xs - length (takeWhile isna xs)"
proof -
  have "length xs = length (takeWhile isna xs) + length (dropWhile isna xs)"
    by (metis length_append takeWhile_dropWhile_id)
  moreover have "length (cleaner xs) = length (dropWhile isna xs)"
    by (simp add: cleaner_dropWhile ffill_from_length split: list.split)
  ultimately show ?thesis by simp
qed

lemma dropna_takeWhile: "dropna (takeWhile isna xs) = []"
  by (induction xs) (auto simp: dropna_def)

lemma cleaner_nth:
  assumes "i < length (cleaner xs)"
  shows "cleaner xs ! i = last (dropna (take (length (takeWhile isna xs) + i + 1) xs))"
proof -
  let ?k = "length (takeWhile isna xs)"
  obtain y ys where d: "dropWhile isna xs = y # ys"
    using assms by (cases "dropWhile isna xs") (auto simp: cleaner_dropWhile)
  have y: "\<not> isna y" using d by (metis hd_dropWhile list.sel(1) list.distinct(1))
  have xs: "xs = takeWhile isna xs @ y # ys" using d by (metis takeWhile_dropWhile_id)
  have "take (?k + i + 1) xs = takeWhile isna xs @ take (Suc i) (y # ys)"
    by (subst xs) simp
  then have t: "dropna (take (?k + i + 1) xs) = y # dropna (take i ys)"
    using y dropna_takeWhile [of xs] by (simp add: dropna_def)
  show ?thesis
  proof (cases i)
    case 0
    then show ?thesis using t d by (simp add: cleaner_dropWhile dropna_def)
  next
    case (Suc j)
    with assms d have j: "j < length ys" by (simp add: cleaner_dropWhile ffill_from_length)
    show ?thesis using ffill_from_nth [OF y j] t d Suc
      by (simp add: cleaner_dropWhile)
  qed
qed


lemma dropna_append: "dropna (xs @ ys) = dropna xs @ dropna ys"
  by (simp add: dropna_def)

lemma last_dropna_take_Suc:
  assumes "n < length xs"
  shows "last (dropna (take (Suc n) xs)) =
         (if isna (xs ! n) then last (dropna (take n xs)) else xs ! n)"
  using assms by (simp add: take_Suc_conv_app_nth dropna_append) (simp add: dropna_def)

text \<open>
  C10. The cleaner drops exactly the leading missing cells; every cell it keeps is
  the raw price at that position when it is present, and otherwise the most recent
  non-missing raw price before it. On \<open>[10, null, null, 12]\<close> it yields
  \<open>[10, 10, 10, 12]\<close>.
\<close>

theorem cleaner_forward_fill:
  "length (cleaner xs) = length xs - length (takeWhile isna xs) \<and>
   (\<forall>i. i < length (cleaner xs) \<longrightarrow>
      \<not> isna (cleaner xs ! i) \<and>
      cleaner xs ! i =
        (if isna (xs ! (length (takeWhile isna xs) + i))
         then last (dropna (take (length (takeWhile isna xs) + i) xs))
         else xs ! (length (takeWhile isna xs) + i))) \<and>
   cleaner [Fin 10, NaN, NaN, Fin 12] = [Fin 10, Fin 10, Fin 10, Fin 12]"
proof (intro conjI allI impI)
  show "length (cleaner xs) = length xs - length (takeWhile isna xs)"
    by (rule cleaner_length)
next
  fix i
  assume i: "i < length (cleaner xs)"
  have "cleaner xs ! i \<in> set (dropna (ffill xs))"
    using i by (simp add: cleaner_def)
  then show "\<not> isna (cleaner xs ! i)"
    by (simp add: dropna_def)
next
  fix i
  assume i: "i < length (cleaner xs)"
  let ?k = "length (takeWhile isna xs)"
  from i have "?k + i < length xs" by (simp add: cleaner_length)
  from last_dropna_take_Suc [OF this] cleaner_nth [OF i]
  show "cleaner xs ! i =
        (if isna (xs ! (?k + i)) then last (dropna (take (?k + i) xs)) else xs ! (?k + i))"
    by simp
next
  show "cleaner [Fin 10, NaN, NaN, Fin 12] = [Fin 10, Fin 10, Fin 10, Fin 12]"
    by (simp add: cleaner_def ffill_def dropna_def)
qed

theorem cleaner_forward_fill_witness:
  "length (cleaner [NaN, Fin 3, NaN, Fin 4]) = 3 \<and>
   cleaner [NaN, Fin 3, NaN, Fin 4] ! 1 = Fin 3 \<and>
   cleaner [NaN, Fin 3, NaN, Fin 4] ! 2 = Fin 4"
  using cleaner_forward_fill [of "[NaN, Fin 3, NaN, Fin 4]"]
  by (simp add: dropna_def)

subsection \<open>The normaliser\<close>

lemma clean_nth: "clean_series ps \<Longrightarrow> i < length ps \<Longrightarrow> ps ! i = Fin (price (ps ! i))"
  by (cases "ps ! i") (auto simp: clean_series_def list_all_length)

lemma normalize_series_Cons:
  "normalize_series (x # xs) = Inr (map (\<lambda>y. fmul (fdiv y x) (Fin 100)) (x # xs))"
  by (simp add: normalize_series_def iloc0_def)

lemma normalize_series_nonempty:
  "ps \<noteq> [] \<Longrightarrow> normalize_series ps = Inr (map (\<lambda>y. fmul (fdiv y (ps ! 0)) (Fin 100)) ps)"
  by (cases ps) (simp_all add: normalize_series_Cons)

text \<open>
  C1. On a non-empty clean series whose first price is not zero, \<open>normalize_series\<close>
  returns a series of the same length with \<open>value[i] = price[i] / price[0] * 100\<close> at
  every position and the value 100 at position 0. It is a function of the series alone.
\<close>

theorem normalize_series_correct:
  assumes "clean_series ps" and "ps \<noteq> []" and "ps ! 0 \<noteq> Fin 0"
  shows "\<exists>vs. normalize_series ps = Inr vs \<and> length vs = length ps \<and>
           (\<forall>i. i < length ps \<longrightarrow> vs ! i = Fin (price (ps ! i) / price (ps ! 0) * 100)) \<and>
           vs ! 0 = Fin 100"
proof -
  let ?vs = "map (\<lambda>y. fmul (fdiv y (ps ! 0)) (Fin 100)) ps"
  from assms(2) have len: "0 < length ps" by simp
  from clean_nth [OF assms(1) len] assms(3) have base: "price (ps ! 0) \<noteq> 0" by auto
  have nth: "?vs ! i = Fin (price (ps ! i) / price (ps ! 0) * 100)" if "i < length ps" for i
  proof -
    have "fdiv (ps ! i) (ps ! 0) = Fin (price (ps ! i) / price (ps ! 0))"
      using base by (subst clean_nth [OF assms(1) that], subst clean_nth [OF assms(1) len]) simp
    with that show ?thesis by simp
  qed
  have "?vs ! 0 = Fin 100" using nth [OF len] base by simp
  with nth normalize_series_nonempty [OF assms(2)] show ?thesis by simp
qed

theorem normalize_series_correct_witness:
  "clean_series [Fin 50, Fin 75] \<and> [Fin 50, Fin 75] \<noteq> [] \<and> [Fin 50, Fin 75] ! 0 \<noteq> Fin 0 \<and>
   normalize_series [Fin 50, Fin 75] = Inr [Fin 100, Fin 150]"
proof -
  have h: "clean_series [Fin 50, Fin 75]" "[Fin 50, Fin 75] \<noteq> []" "[Fin 50, Fin 75] ! 0 \<noteq> Fin 0"
    by (simp_all add: clean_series_def)
  from normalize_series_correct [OF h] h show ?thesis
    by (simp add: normalize_series_Cons)
qed

subsection \<open>The return series, and the values of the normaliser on a zero base price\<close>

lemma pct_from_length: "length (pct_from prev xs) = length xs"
  by (induction xs arbitrary: prev) auto

lemma pct_change_length: "length (pct_change xs) = length xs"
  by (cases xs) (simp_all add: pct_from_length)

lemma pct_from_nth:
  "i < length xs \<Longrightarrow> pct_from prev xs ! i = fsub (fdiv (xs ! i) ((prev # xs) ! i)) (Fin 1)"
proof (induction xs arbitrary: prev i)
  case Nil
  then show ?case by simp
next
  case (Cons x xs)
  then show ?case by (cases i) simp_all
qed

lemma pct_change_nth:
  assumes "1 \<le> i" and "i < length xs"
  shows "pct_change xs ! i = fsub (fdiv (xs ! i) (xs ! (i - 1))) (Fin 1)"
proof -
  from assms obtain x ys j where xs: "xs = x # ys" and i: "i = Suc j" and j: "j < length ys"
    by (cases xs; cases i) auto
  show ?thesis using pct_from_nth [OF j, of x] by (simp add: xs i)
qed

lemma returns_length: "length (returns xs) = length xs"
  by (simp add: returns_def fillna_def pct_change_length)

lemma returns_0: "xs \<noteq> [] \<Longrightarrow> returns xs ! 0 = Fin 0"
  by (cases xs) (simp_all add: returns_def fillna_def)

lemma returns_nth:
  assumes "1 \<le> i" and "i < length xs"
  shows "returns xs ! i =
         (if isna (fsub (fdiv (xs ! i) (xs ! (i - 1))) (Fin 1)) then Fin 0
          else fsub (fdiv (xs ! i) (xs ! (i - 1))) (Fin 1))"
  using assms pct_change_nth [OF assms]
  by (simp add: returns_def fillna_def pct_change_length)

text \<open>
  C2, as stated, fails where a price of 0 follows a price of 0: the quotient
  \<open>0 / 0\<close> is NaN, and \<open>fillna(0)\<close> turns that return into 0.
\<close>

theorem returns_counterexample:
  "clean_series [Fin 0, Fin 0] \<and>
   returns [Fin 0, Fin 0] ! 1 = Fin 0 \<and>
   fsub (fdiv ([Fin 0, Fin 0] ! 1) ([Fin 0, Fin 0] ! (1 - 1))) (Fin 1) = NaN \<and>
   returns [Fin 0, Fin 0] ! 1 \<noteq> fsub (fdiv ([Fin 0, Fin 0] ! 1) ([Fin 0, Fin 0] ! (1 - 1))) (Fin 1)"
  by (simp add: clean_series_def returns_def fillna_def fsub_def signed_inf_def)

text \<open>
  C2, amended. The return series of a clean series has as many elements as the
  series, its first element is 0, and for \<open>i >= 1\<close> its element is
  \<open>price[i] / price[i-1] - 1\<close>, except that it is 0 where \<open>price[i]\<close> and
  \<open>price[i-1]\<close> are both 0.
\<close>

theorem returns_correct:
  assumes "clean_series ps"
  shows "length (returns ps) = length ps \<and>
         (ps \<noteq> [] \<longrightarrow> returns ps ! 0 = Fin 0) \<and>
         (\<forall>i. 1 \<le> i \<and> i < length ps \<longrightarrow>
            returns ps ! i =
              (if ps ! i = Fin 0 \<and> ps ! (i - 1) = Fin 0 then Fin 0
               else fsub (fdiv (ps ! i) (ps ! (i - 1))) (Fin 1)))"
proof (intro conjI allI impI)
  show "length (returns ps) = length ps" by (rule returns_length)
next
  assume "ps \<noteq> []"
  then show "returns ps ! 0 = Fin 0" by (rule returns_0)
next
  fix i
  assume i: "1 \<le> i \<and> i < length ps"
  then have i1: "i - 1 < length ps" by arith
  obtain a b where a: "ps ! i = Fin a" and b: "ps ! (i - 1) = Fin b"
    using clean_nth [OF assms] i i1 by blast
  from i have "returns ps ! i =
      (if isna (fsub (fdiv (ps ! i) (ps ! (i - 1))) (Fin 1)) then Fin 0
       else fsub (fdiv (ps ! i) (ps ! (i - 1))) (Fin 1))"
    by (simp add: returns_nth)
  then show "returns ps ! i =
      (if ps ! i = Fin 0 \<and> ps ! (i - 1) = Fin 0 then Fin 0
       else fsub (fdiv (ps ! i) (ps ! (i - 1))) (Fin 1))"
    unfolding a b by (simp add: fsub_def signed_inf_def)
qed

theorem returns_correct_witness:
  "clean_series [Fin 100, Fin 110, Fin 0, Fin 0] \<and>
   returns [Fin 100, Fin 110, Fin 0, Fin 0] = [Fin 0, Fin (1 / 10), Fin (- 1), Fin 0]"
proof -
  have h: "clean_series [Fin 100, Fin 110, Fin 0, Fin 0]"
    by (simp add: clean_series_def)
  from returns_correct [OF h] h show ?thesis
    by (simp add: returns_def fillna_def fsub_def signed_inf_def)
qed

lemma signed_inf_100: "fmul (signed_inf a) (Fin 100) = signed_inf a"
  by (simp add: signed_inf_def)

text \<open>
  C9, as stated, fails: on a series that starts with the price 0 \<open>normalize_series\<close>
  returns a series and raises nothing.
\<close>

theorem normalize_zero_base_counterexample:
  "clean_series [Fin 0, Fin 5] \<and> [Fin 0, Fin 5] ! 0 = Fin 0 \<and>
   normalize_series [Fin 0, Fin 5] = Inr [NaN, PInf] \<and>
   (\<forall>e. normalize_series [Fin 0, Fin 5] \<noteq> Inl e)"
  by (simp add: clean_series_def normalize_series_Cons signed_inf_def)

lemma normalize_zero_base_values:
  assumes "clean_series ps" and "ps \<noteq> []" and "ps ! 0 = Fin 0"
  shows "normalize_series ps = Inr (map (\<lambda>p. signed_inf (price p)) ps) \<and>
         (\<forall>i. i < length ps \<longrightarrow>
            map (\<lambda>p. signed_inf (price p)) ps ! i =
              (if price (ps ! i) = 0 then NaN else if 0 < price (ps ! i) then PInf else NInf))"
proof -
  have "fmul (fdiv p (ps ! 0)) (Fin 100) = signed_inf (price p)" if "p \<in> set ps" for p
  proof -
    from that assms(1) have "is_fin p"
      by (simp add: clean_series_def list_all_iff)
    then obtain a where "p = Fin a"
      by (auto elim: is_fin.elims)
    then show ?thesis by (simp add: assms(3) signed_inf_100)
  qed
  then have "map (\<lambda>y. fmul (fdiv y (ps ! 0)) (Fin 100)) ps = map (\<lambda>p. signed_inf (price p)) ps"
    by simp
  with normalize_series_nonempty [OF assms(2)] show ?thesis
    by (simp add: signed_inf_def)
qed

subsection \<open>Mean, standard deviation and the summary numbers\<close>

lemma foldl_fadd_Fin: "foldl fadd (Fin a) (map Fin rs) = Fin (a + sum_list rs)"
  by (induction rs arbitrary: a) (simp_all add: add.assoc)

lemma fsum_map_Fin: "fsum (map Fin rs) = Fin (sum_list rs)"
  by (simp add: fsum_def foldl_fadd_Fin)

lemma dropna_map_Fin: "dropna (map Fin rs) = map Fin rs"
  by (induction rs) (simp_all add: dropna_def)

lemma dropna_idem: "dropna (dropna xs) = dropna xs"
  by (simp add: dropna_def)

lemma pd_mean_dropna: "pd_mean (dropna xs) = pd_mean xs"
  by (simp add: pd_mean_def dropna_idem)

lemma pd_std_dropna: "pd_std (dropna xs) = pd_std xs"
  by (simp add: pd_std_def pd_var_def dropna_idem)

lemma pd_mean_map_Fin:
  "rs \<noteq> [] \<Longrightarrow> pd_mean (map Fin rs) = Fin (sum_list rs / real (length rs))"
  by (simp add: pd_mean_def dropna_map_Fin fsum_map_Fin Let_def)

lemma sum_list_sq_nonneg: "0 \<le> sum_list (map (\<lambda>r. (m - r) * (m - r)) (rs :: real list))"
  by (induction rs) simp_all

lemma pd_std_map_Fin:
  "pd_std (map Fin rs) =
     (if length rs \<le> 1 then NaN
      else Fin (sqrt (sum_list (map (\<lambda>r. (sum_list rs / real (length rs) - r) *
                                           (sum_list rs / real (length rs) - r)) rs)
                      / real (length rs - 1))))"
proof (cases "length rs \<le> 1")
  case True
  then show ?thesis by (simp add: pd_std_def pd_var_def dropna_map_Fin Let_def)
next
  case False
  let ?m = "sum_list rs / real (length rs)"
  have avg: "fdiv (fsum (map Fin rs)) (Fin (real (length rs))) = Fin ?m"
    using False by (auto simp: fsum_map_Fin)
  have sqr: "map (\<lambda>x. fmul (fsub (Fin ?m) x) (fsub (Fin ?m) x)) (map Fin rs) =
             map Fin (map (\<lambda>r. (?m - r) * (?m - r)) rs)"
    by (simp add: fsub_def)
  have nn: "0 \<le> sum_list (map (\<lambda>r. (?m - r) * (?m - r)) rs) / real (length rs - 1)"
    using sum_list_sq_nonneg [of ?m rs] by simp
  have "pd_var (map Fin rs) =
        fdiv (fsum (map (\<lambda>x. fmul (fsub (Fin ?m) x) (fsub (Fin ?m) x)) (map Fin rs)))
             (Fin (real (length rs - 1)))"
    using False by (simp add: pd_var_def dropna_map_Fin Let_def avg del: map_map)
  also have "\<dots> = Fin (sum_list (map (\<lambda>r. (?m - r) * (?m - r)) rs) / real (length rs - 1))"
    using False unfolding sqr fsum_map_Fin by simp
  finally have "pd_var (map Fin rs) =
        Fin (sum_list (map (\<lambda>r. (?m - r) * (?m - r)) rs) / real (length rs - 1))" .
  with nn False show ?thesis by (simp add: pd_std_def)
qed

lemma pct_change_as_map:
  "ps \<noteq> [] \<Longrightarrow>
   pct_change ps = NaN # map (\<lambda>i. fsub (fdiv (ps ! i) (ps ! (i - 1))) (Fin 1)) [1..<length ps]"
proof (rule nth_equalityI)
  assume "ps \<noteq> []"
  then show "length (pct_change ps) =
        length (NaN # map (\<lambda>i. fsub (fdiv (ps ! i) (ps ! (i - 1))) (Fin 1)) [1..<length ps])"
    by (cases ps) (auto simp: pct_from_length not_less_eq_eq)
next
  fix i
  assume ne: "ps \<noteq> []" and i: "i < length (pct_change ps)"
  show "pct_change ps ! i =
        (NaN # map (\<lambda>i. fsub (fdiv (ps ! i) (ps ! (i - 1))) (Fin 1)) [1..<length ps]) ! i"
  proof (cases i)
    case 0
    with ne show ?thesis by (cases ps) simp_all
  next
    case (Suc j)
    with i have "1 \<le> i" "i < length ps" by (simp_all add: pct_change_length)
    moreover from Suc i have "[1..<length ps] ! j = Suc j"
      by (simp add: pct_change_length)
    ultimately show ?thesis using pct_change_nth [of i ps] Suc
      by (simp add: pct_change_length)
  qed
qed

lemma summary_of_nonempty:
  "ps \<noteq> [] \<Longrightarrow>
   summary_of ps =
     Inr \<lparr>start_price = ps ! 0, end_price = last ps,
          total_return = fmul (fsub (fdiv (last ps) (ps ! 0)) (Fin 1)) (Fin 100),
          avg_daily_return = fmul (pd_mean (dropna (pct_change ps))) (Fin 100),
          volatility = fmul (pd_std (dropna (pct_change ps))) (Fin 100)\<rparr>"
  by (cases ps) (simp_all add: summary_of_def iloc0_def iloc_last_def Let_def)

subsection \<open>The summary row\<close>

lemma sqrt_example: "\<lfloor>sqrt (1 / 50) * 100 * 1000\<rfloor> = 14142 \<and>
  sqrt (1 / 50) * 100 * 1000 - 14142 < 1 / 2"
proof -
  have big: "sqrt 10000000000 = 100000"
    by (rule real_sqrt_unique) (simp_all add: power2_eq_square)
  have "sqrt (1 / 50) * 100 * 1000 = sqrt (1 / 50) * sqrt 10000000000"
    unfolding big by simp
  also have "\<dots> = sqrt (1 / 50 * 10000000000)"
    by (simp only: real_sqrt_mult)
  also have "\<dots> = sqrt 200000000"
    by simp
  finally have eq: "sqrt (1 / 50) * 100 * 1000 = sqrt 200000000" .
  have lo: "14142 \<le> sqrt 200000000"
    by (rule real_le_rsqrt) (simp add: power2_eq_square)
  have hi: "sqrt 200000000 < 14142.5"
    by (rule real_less_lsqrt) (simp_all add: power2_eq_square)
  from lo hi have "\<lfloor>sqrt 200000000\<rfloor> = 14142"
    by (intro floor_unique) simp_all
  with hi show ?thesis unfolding eq by simp
qed


lemma summary_of_single:
  "summary_of [x] =
     Inr \<lparr>start_price = x, end_price = x,
          total_return = fmul (fsub (fdiv x x) (Fin 1)) (Fin 100),
          avg_daily_return = NaN, volatility = NaN\<rparr>"
  by (simp add: summary_of_nonempty dropna_def pd_mean_def pd_std_def pd_var_def)

subsection \<open>The page: empty series, single observations, the raw-data export\<close>

lemma fetch_data_nonempty_quiet:
  "snd (fetch_data t df) \<noteq> [] \<Longrightarrow> fst (fetch_data t df) = []"
  by (auto simp: fetch_data_def split: if_splits frame.splits option.splits)

lemma rolling_vol_length: "length (rolling_vol xs) = length xs"
  by (simp add: rolling_vol_def rolling_std_def returns_length)

lemma main_single:
  assumes "fetch_data (INDEX_TICKERS idx) (download (INDEX_TICKERS idx)) = (msgs, x # xs)"
  shows "\<exists>row. summary_row_of idx (x # xs) = Inr row \<and>
     main download [idx] False =
       \<lparr>notices = msgs,
        norm_chart = Some [(idx, map (\<lambda>y. fmul (fdiv y x) (Fin 100)) (x # xs))],
        cum_chart = Some [(idx, map (\<lambda>c. fmul c (Fin 100)) (cum_returns (x # xs)))],
        vol_chart = Some [(idx, rolling_vol (x # xs))],
        summary_table = Some [row], raw_table = None, uncaught = None\<rparr>"
proof -
  obtain row where row: "summary_row_of idx (x # xs) = Inr row"
    by (auto simp: summary_row_of_def summary_of_nonempty)
  then show ?thesis using assms
    by (simp add: main_def normalize_series_Cons)
qed


lemma dict_set_fresh: "k \<notin> fst ` set kvs \<Longrightarrow> dict_set k v kvs = kvs @ [(k, v)]"
  by (induction kvs) auto

lemma main_loop_distinct:
  assumes "distinct sel" and "fst ` set pd \<inter> set sel = {}"
  shows "main_loop dl sel (sh, pd, fig) =
     Inr (sh @ concat (map (\<lambda>i. fst (fetched dl i)) sel),
          pd @ map (\<lambda>i. (i, snd (fetched dl i))) (kept dl sel),
          fig @ map (\<lambda>i. (i, map (\<lambda>y. fmul (fdiv y (snd (fetched dl i) ! 0)) (Fin 100))
                                  (snd (fetched dl i)))) (kept dl sel))"
  using assms
proof (induction sel arbitrary: sh pd fig)
  case Nil
  then show ?case by simp
next
  case (Cons i sel)
  obtain msgs data where f: "fetched dl i = (msgs, data)" by (cases "fetched dl i")
  show ?case
  proof (cases "data = []")
    case True
    from Cons.prems have "distinct sel" "fst ` set pd \<inter> set sel = {}" by auto
    from Cons.IH [OF this] f True show ?thesis by simp
  next
    case False
    from Cons.prems have fresh: "i \<notin> fst ` set pd" by auto
    from Cons.prems have d: "distinct sel" and
      "fst ` set (pd @ [(i, data)]) \<inter> set sel = {}" by auto
    from Cons.IH [OF this] f False fresh show ?thesis
      by (simp add: normalize_series_nonempty dict_set_fresh)
  qed
qed

lemma summary_loop_nonempty:
  "\<forall>(i, xs) \<in> set pd. xs \<noteq> [] \<Longrightarrow>
   \<exists>rows. summary_loop pd = Inr rows \<and>
          map Inr rows = map (\<lambda>(i, xs). summary_row_of i xs) pd"
proof (induction pd)
  case Nil
  then show ?case by simp
next
  case (Cons p pd)
  obtain i xs where p: "p = (i, xs)" by (cases p)
  with Cons.prems have ne: "xs \<noteq> []" by simp
  then obtain row where row: "summary_row_of i xs = Inr row"
    by (auto simp: summary_row_of_def summary_of_nonempty)
  from Cons obtain rows where
    "summary_loop pd = Inr rows" "map Inr rows = map (\<lambda>(i, xs). summary_row_of i xs) pd"
    by auto
  with row p show ?case by simp
qed

lemma summary_row_of_Index: "summary_row_of i xs = Inr row \<Longrightarrow> Index row = i"
  by (auto simp: summary_row_of_def split: sum.splits)


lemma kept_nonempty:
  "\<forall>(i, xs) \<in> set (map (\<lambda>i. (i, snd (fetched dl i))) (kept dl sel)). xs \<noteq> []"
  by auto

lemma main_loop_start:
  "distinct sel \<Longrightarrow>
   main_loop dl sel ([], [], []) =
     Inr (concat (map (\<lambda>i. fst (fetched dl i)) sel),
          map (\<lambda>i. (i, snd (fetched dl i))) (kept dl sel),
          map (\<lambda>i. (i, map (\<lambda>y. fmul (fdiv y (snd (fetched dl i) ! 0)) (Fin 100))
                            (snd (fetched dl i)))) (kept dl sel))"
  using main_loop_distinct [of sel "[]" dl "[]" "[]"] by simp

lemma raw_columns_empty:
  "i \<in> set sel \<Longrightarrow> snd (fetched dl i) = [] \<Longrightarrow>
   \<exists>sh'. raw_columns dl sel (sh, cols) = (sh', Inl IndexError)"
proof (induction sel arbitrary: sh cols)
  case Nil
  then show ?case by simp
next
  case (Cons j sel)
  obtain msgs data where f: "fetched dl j = (msgs, data)" by (cases "fetched dl j")
  show ?case
  proof (cases "data = []")
    case True
    with f show ?thesis by (simp add: normalize_series_def iloc0_def)
  next
    case False
    with Cons.prems f have "i \<in> set sel" by auto
    from Cons.IH [OF this Cons.prems(2)] f False show ?thesis
      by (simp add: normalize_series_nonempty)
  qed
qed

lemma main_page:
  assumes "distinct sel" and "sel \<noteq> []"
  shows "\<exists>rows shown out.
     map Inr rows = map (\<lambda>i. summary_row_of i (snd (fetched dl i))) (kept dl sel) \<and>
     (show_raw \<longrightarrow> raw_columns dl sel (concat (map (\<lambda>i. fst (fetched dl i)) sel), []) = (shown, out)) \<and>
     (\<not> show_raw \<longrightarrow> shown = concat (map (\<lambda>i. fst (fetched dl i)) sel) \<and> out = Inl IndexError) \<and>
     main dl sel show_raw =
       \<lparr>notices = shown,
        norm_chart = Some (map (\<lambda>i. (i, map (\<lambda>y. fmul (fdiv y (snd (fetched dl i) ! 0)) (Fin 100))
                                         (snd (fetched dl i)))) (kept dl sel)),
        cum_chart = Some (map (\<lambda>i. (i, map (\<lambda>c. fmul c (Fin 100))
                                         (cum_returns (snd (fetched dl i))))) (kept dl sel)),
        vol_chart = Some (map (\<lambda>i. (i, rolling_vol (snd (fetched dl i)))) (kept dl sel)),
        summary_table = Some rows,
        raw_table = (case out of Inl e \<Rightarrow> None | Inr cols \<Rightarrow> Some cols),
        uncaught = (if show_raw then (case out of Inl e \<Rightarrow> Some e | Inr cols \<Rightarrow> None) else None)\<rparr>"
proof -
  let ?pd = "map (\<lambda>i. (i, snd (fetched dl i))) (kept dl sel)"
  from summary_loop_nonempty [OF kept_nonempty [of dl sel]]
  obtain rows where rows: "summary_loop ?pd = Inr rows"
    "map Inr rows = map (\<lambda>(i, xs). summary_row_of i xs) ?pd" by blast
  from rows(2) have r2: "map Inr rows = map (\<lambda>i. summary_row_of i (snd (fetched dl i))) (kept dl sel)"
    by (simp add: comp_def)
  show ?thesis
  proof (cases show_raw)
    case False
    with assms rows(1) r2 show ?thesis
      by (simp add: main_def main_loop_start comp_def)
  next
    case True
    obtain shown out where
      rc: "raw_columns dl sel (concat (map (\<lambda>i. fst (fetched dl i)) sel), []) = (shown, out)"
      by (cases "raw_columns dl sel (concat (map (\<lambda>i. fst (fetched dl i)) sel), [])")
    with True assms rows(1) r2 show ?thesis
      by (cases out) (simp_all add: main_def main_loop_start comp_def)
  qed
qed


lemma cleaner_all_null: "list_all isna col \<Longrightarrow> cleaner col = []"
proof -
  assume "list_all isna col"
  then have "dropWhile isna col = []" by (simp add: list_all_iff)
  then show ?thesis unfolding cleaner_dropWhile by (simp only: list.case)
qed

lemma main_page_plain:
  assumes "distinct sel" and "sel \<noteq> []"
  shows "\<exists>rows.
     map Inr rows = map (\<lambda>i. summary_row_of i (snd (fetched dl i))) (kept dl sel) \<and>
     main dl sel False =
       \<lparr>notices = concat (map (\<lambda>i. fst (fetched dl i)) sel),
        norm_chart = Some (map (\<lambda>i. (i, map (\<lambda>y. fmul (fdiv y (snd (fetched dl i) ! 0)) (Fin 100))
                                         (snd (fetched dl i)))) (kept dl sel)),
        cum_chart = Some (map (\<lambda>i. (i, map (\<lambda>c. fmul c (Fin 100))
                                         (cum_returns (snd (fetched dl i))))) (kept dl sel)),
        vol_chart = Some (map (\<lambda>i. (i, rolling_vol (snd (fetched dl i)))) (kept dl sel)),
        summary_table = Some rows, raw_table = None, uncaught = None\<rparr>"
  using main_page [OF assms, of dl False] by auto

lemma rows_Index:
  "map Inr rows = map (\<lambda>i. summary_row_of i (f i)) is \<Longrightarrow> map Index rows = is"
proof (induction "is" arbitrary: rows)
  case Nil
  then show ?case by simp
next
  case (Cons i "is")
  then obtain r rs where rows: "rows = r # rs" by (cases rows) auto
  with Cons.prems have "summary_row_of i (f i) = Inr r" "map Inr rs = map (\<lambda>i. summary_row_of i (f i)) is"
    by simp_all
  with Cons.IH [of rs] rows show ?case by (simp add: summary_row_of_Index)
qed

lemma empty_series_excluded:
  assumes "distinct sel" and "i \<in> set sel" and "snd (fetched dl i) = []"
  shows "i \<notin> fst ` set (the (norm_chart (main dl sel False))) \<and>
         i \<notin> fst ` set (the (cum_chart (main dl sel False))) \<and>
         i \<notin> fst ` set (the (vol_chart (main dl sel False))) \<and>
         i \<notin> Index ` set (the (summary_table (main dl sel False))) \<and>
         (frame_empty (dl (INDEX_TICKERS i)) \<longrightarrow>
            WarnNoData (INDEX_TICKERS i) \<in> set (notices (main dl sel False)))"
proof -
  from assms(2) have ne: "sel \<noteq> []" by auto
  from main_page_plain [OF assms(1) ne, of dl] obtain rows where
    rows: "map Inr rows = map (\<lambda>i. summary_row_of i (snd (fetched dl i))) (kept dl sel)" and
    pg: "main dl sel False =
       \<lparr>notices = concat (map (\<lambda>i. fst (fetched dl i)) sel),
        norm_chart = Some (map (\<lambda>i. (i, map (\<lambda>y. fmul (fdiv y (snd (fetched dl i) ! 0)) (Fin 100))
                                         (snd (fetched dl i)))) (kept dl sel)),
        cum_chart = Some (map (\<lambda>i. (i, map (\<lambda>c. fmul c (Fin 100))
                                         (cum_returns (snd (fetched dl i))))) (kept dl sel)),
        vol_chart = Some (map (\<lambda>i. (i, rolling_vol (snd (fetched dl i)))) (kept dl sel)),
        summary_table = Some rows, raw_table = None, uncaught = None\<rparr>"
    by blast
  have idx: "set (map Index rows) = set (kept dl sel)"
    using rows_Index [OF rows] by simp
  have w: "frame_empty (dl (INDEX_TICKERS i)) \<longrightarrow>
        WarnNoData (INDEX_TICKERS i) \<in> set (fst (fetched dl i))"
    by (simp add: fetch_data_def)
  from assms(3) have "i \<notin> set (kept dl sel)" by simp
  with idx w assms(2) show ?thesis
    unfolding pg by (auto simp: image_iff)
qed

text \<open>
  C6. The code departs from the claim where the fetched frame has rows but its price
  column holds no price: \<open>df.empty\<close> is false, \<open>ffill().dropna()\<close> leaves an empty series,
  and \<open>fetch_data\<close> returns it without any warning, whereas the branch for an empty
  frame warns with the ticker. (The index is still left out of the charts and of the
  summary, see \<open>empty_series_excluded\<close>.)
\<close>

theorem all_null_column_silent:
  assumes "map_of cs ''Adj Close'' = None" and "map_of cs ''Close'' = Some col"
    and "col \<noteq> []" and "list_all isna col"
  shows "fetch_data ticker (Flat cs) = ([], [])"
proof -
  from assms(2) have "(''Close'', col) \<in> set cs" by (rule map_of_SomeD)
  with assms(3) have "\<not> frame_empty (Flat cs)" by (force simp: list_all_iff)
  with assms show ?thesis by (simp add: fetch_data_def cleaner_all_null)
qed


theorem all_null_column_silent_witness:
  "map_of [(''Close'', [NaN, NaN])] ''Adj Close'' = None \<and>
   map_of [(''Close'', [NaN, NaN])] ''Close'' = Some [NaN, NaN] \<and>
   [NaN, NaN] \<noteq> [] \<and> list_all isna [NaN, NaN] \<and>
   fetch_data ''^GSPC'' (Flat [(''Close'', [NaN, NaN])]) = ([], []) \<and>
   fetch_data ''^GSPC'' (Flat []) = ([WarnNoData ''^GSPC''], []) \<and>
   notices (main (\<lambda>t. if t = ''^IXIC'' then Flat [(''Close'', [Fin 10, Fin 11, NaN, Fin 12, Fin 9])]
              else Flat [(''Close'', [NaN, NaN])]) [SP500, NASDAQ] False) = [] \<and>
   map Index (the (summary_table (main (\<lambda>t. if t = ''^IXIC'' then Flat [(''Close'', [Fin 10, Fin 11, NaN, Fin 12, Fin 9])]
              else Flat [(''Close'', [NaN, NaN])]) [SP500, NASDAQ] False))) = [NASDAQ]"
proof -
  let ?dl = "(\<lambda>t. if t = ''^IXIC'' then Flat [(''Close'', [Fin 10, Fin 11, NaN, Fin 12, Fin 9])]
              else Flat [(''Close'', [NaN, NaN])])"
  have h: "map_of [(''Close'', [NaN, NaN])] ''Adj Close'' = None"
    "map_of [(''Close'', [NaN, NaN])] ''Close'' = Some [NaN, NaN]"
    "[NaN, NaN] \<noteq> []" "list_all isna [NaN, NaN]"
    by simp_all
  note quiet = all_null_column_silent [OF h, of "''^GSPC''"]
  have f1: "fetched ?dl SP500 = ([], [])" using quiet by simp
  have f2: "fetched ?dl NASDAQ = ([], [Fin 10, Fin 11, Fin 11, Fin 12, Fin 9])"
    by (simp add: fetch_data_def cleaner_def ffill_def dropna_def)
  have d: "distinct [SP500, NASDAQ]" "[SP500, NASDAQ] \<noteq> []" by simp_all
  from main_page_plain [OF d, of ?dl] obtain rows where
    rows: "map Inr rows =
      map (\<lambda>i. summary_row_of i (snd (fetched ?dl i))) (kept ?dl [SP500, NASDAQ])" and
    pg: "notices (main ?dl [SP500, NASDAQ] False) =
           concat (map (\<lambda>i. fst (fetched ?dl i)) [SP500, NASDAQ])"
        "summary_table (main ?dl [SP500, NASDAQ] False) = Some rows"
    by auto
  have k: "kept ?dl [SP500, NASDAQ] = [NASDAQ]"
    using f1 f2 by simp
  from rows_Index [OF rows] have "map Index rows = [NASDAQ]" unfolding k .
  with pg f1 f2 h quiet show ?thesis
    by (simp add: fetch_data_def)
qed

text \<open>
  C7. The code departs from the claim on the raw-data path: the main loop skips an
  index whose series is empty, but the raw-data export calls \<open>normalize_series\<close> on
  every selected index, so one empty series raises IndexError there and no raw table
  is shown for any index. Without the checkbox nothing is raised.
\<close>

theorem raw_export_aborts:
  assumes "distinct sel" and "i \<in> set sel" and "snd (fetched dl i) = []"
  shows "raw_table (main dl sel True) = None \<and>
         uncaught (main dl sel True) = Some IndexError \<and>
         uncaught (main dl sel False) = None"
proof -
  from assms(2) have ne: "sel \<noteq> []" by auto
  from raw_columns_empty [where dl = dl and i = i, OF assms(2,3)] obtain sh' where
    rc: "raw_columns dl sel (concat (map (\<lambda>i. fst (fetched dl i)) sel), []) = (sh', Inl IndexError)"
    by blast
  from main_page [OF assms(1) ne, of dl True] rc
  have "raw_table (main dl sel True) = None \<and> uncaught (main dl sel True) = Some IndexError"
    by auto
  moreover from main_page_plain [OF assms(1) ne, of dl]
  have "uncaught (main dl sel False) = None" by auto
  ultimately show ?thesis by simp
qed

theorem raw_export_aborts_witness:
  "distinct [SP500, NASDAQ] \<and> SP500 \<in> set [SP500, NASDAQ] \<and>
   snd (fetched (\<lambda>t. if t = ''^IXIC'' then Flat [(''Close'', [Fin 10, Fin 11, NaN, Fin 12, Fin 9])]
              else Flat []) SP500) = [] \<and>
   snd (fetched (\<lambda>t. if t = ''^IXIC'' then Flat [(''Close'', [Fin 10, Fin 11, NaN, Fin 12, Fin 9])]
              else Flat []) NASDAQ) = [Fin 10, Fin 11, Fin 11, Fin 12, Fin 9] \<and>
   raw_table (main (\<lambda>t. if t = ''^IXIC'' then Flat [(''Close'', [Fin 10, Fin 11, NaN, Fin 12, Fin 9])]
              else Flat []) [SP500, NASDAQ] True) = None \<and>
   uncaught (main (\<lambda>t. if t = ''^IXIC'' then Flat [(''Close'', [Fin 10, Fin 11, NaN, Fin 12, Fin 9])]
              else Flat []) [SP500, NASDAQ] True) = Some IndexError \<and>
   uncaught (main (\<lambda>t. if t = ''^IXIC'' then Flat [(''Close'', [Fin 10, Fin 11, NaN, Fin 12, Fin 9])]
              else Flat []) [SP500, NASDAQ] False) = None"
proof -
  have h: "distinct [SP500, NASDAQ]" "SP500 \<in> set [SP500, NASDAQ]"
    "snd (fetched (\<lambda>t. if t = ''^IXIC'' then Flat [(''Close'', [Fin 10, Fin 11, NaN, Fin 12, Fin 9])]
              else Flat []) SP500) = []"
    by (simp_all add: fetch_data_def)
  have "snd (fetched (\<lambda>t. if t = ''^IXIC'' then Flat [(''Close'', [Fin 10, Fin 11, NaN, Fin 12, Fin 9])]
              else Flat []) NASDAQ) = [Fin 10, Fin 11, Fin 11, Fin 12, Fin 9]"
    by (simp add: fetch_data_def cleaner_def ffill_def dropna_def)
  with raw_export_aborts [where i = SP500 and sel = "[SP500, NASDAQ]" and dl = "\<lambda>t. if t = ''^IXIC'' then Flat [(''Close'', [Fin 10, Fin 11, NaN, Fin 12, Fin 9])]
              else Flat []", OF h] h
  show ?thesis by simp
qed

lemma single_row:
  "summary_row_of i [Fin p] =
     Inr \<lparr>Index = i, Start_Price = py_fixed 2 (Fin p), End_Price = py_fixed 2 (Fin p),
          Total_Return = (if p = 0 then TextNan else Decimal False 0 2),
          Avg_Daily_Return = TextNan, Volatility = TextNan\<rparr>"
  by (simp add: summary_row_of_def summary_of_single fsub_def signed_inf_def
      round_half_even_def)

text \<open>
  C8, as stated, fails: for a series with one observation the summary table has a
  row, with \<open>nan\<close> as average daily return and as volatility, and no notice is shown.
\<close>

theorem single_observation_counterexample:
  "snd (fetched (\<lambda>t. Flat [(''Close'', [Fin 5])]) NASDAQ) = [Fin 5] \<and> length [Fin 5 :: f64] < 2 \<and>
   summary_table (main (\<lambda>t. Flat [(''Close'', [Fin 5])]) [NASDAQ] False) =
     Some [\<lparr>Index = NASDAQ, Start_Price = Decimal False 500 2, End_Price = Decimal False 500 2,
            Total_Return = Decimal False 0 2, Avg_Daily_Return = TextNan,
            Volatility = TextNan\<rparr>] \<and>
   notices (main (\<lambda>t. Flat [(''Close'', [Fin 5])]) [NASDAQ] False) = [] \<and>
   uncaught (main (\<lambda>t. Flat [(''Close'', [Fin 5])]) [NASDAQ] False) = None"
proof -
  have f: "fetched (\<lambda>t. Flat [(''Close'', [Fin 5])]) NASDAQ = ([], [Fin 5])"
    by (simp add: fetch_data_def cleaner_def ffill_def dropna_def)
  from main_single [where idx = NASDAQ and download = "\<lambda>t. Flat [(''Close'', [Fin 5])]", OF f]
    single_row [of NASDAQ 5] f
  show ?thesis by (auto simp: round_half_even_def)
qed

text \<open>
  C8, amended. For a selected index whose clean series has exactly one observation
  the summary table holds a row: start and end price are that observation, the
  total return is 0.00 (\<open>nan\<close> when the price is 0), and the average daily return and
  the volatility are \<open>nan\<close>. Nothing is raised and \<open>fetch_data\<close> shows no notice for
  that index.
\<close>

theorem single_observation_row:
  assumes "distinct sel" and "i \<in> set sel" and "snd (fetched dl i) = [Fin p]"
  shows "\<lparr>Index = i, Start_Price = py_fixed 2 (Fin p), End_Price = py_fixed 2 (Fin p),
          Total_Return = (if p = 0 then TextNan else Decimal False 0 2),
          Avg_Daily_Return = TextNan, Volatility = TextNan\<rparr>
           \<in> set (the (summary_table (main dl sel False))) \<and>
         fst (fetched dl i) = [] \<and>
         uncaught (main dl sel False) = None"
proof -
  let ?row = "\<lparr>Index = i, Start_Price = py_fixed 2 (Fin p), End_Price = py_fixed 2 (Fin p),
          Total_Return = (if p = 0 then TextNan else Decimal False 0 2),
          Avg_Daily_Return = TextNan, Volatility = TextNan\<rparr>"
  from assms(2) have ne: "sel \<noteq> []" by auto
  from main_page_plain [OF assms(1) ne, of dl] obtain rows where
    rows: "map Inr rows = map (\<lambda>i. summary_row_of i (snd (fetched dl i))) (kept dl sel)" and
    pg: "summary_table (main dl sel False) = Some rows" "uncaught (main dl sel False) = None"
    by auto
  from assms(2,3) have k: "i \<in> set (kept dl sel)" by simp
  have m: "Inr ?row = summary_row_of i (snd (fetched dl i))"
    unfolding assms(3) single_row ..
  have "Inr ?row \<in> (\<lambda>i. summary_row_of i (snd (fetched dl i))) ` set (kept dl sel)"
    using m k by (rule image_eqI)
  moreover have "set (map Inr rows) =
      (\<lambda>i. summary_row_of i (snd (fetched dl i))) ` set (kept dl sel)"
    unfolding rows by (rule set_map)
  ultimately have "(Inr ?row :: py_error + summary_row) \<in> set (map Inr rows)"
    by simp
  then have "?row \<in> set rows" by auto
  moreover from assms(3) have "fst (fetched dl i) = []"
    by (intro fetch_data_nonempty_quiet) simp
  ultimately show ?thesis using pg by simp
qed

theorem single_observation_row_witness:
  "distinct [NASDAQ] \<and> NASDAQ \<in> set [NASDAQ] \<and> snd (fetched (\<lambda>t. Flat [(''Close'', [Fin 5])]) NASDAQ) = [Fin 5] \<and>
   \<lparr>Index = NASDAQ, Start_Price = Decimal False 500 2, End_Price = Decimal False 500 2,
    Total_Return = Decimal False 0 2, Avg_Daily_Return = TextNan, Volatility = TextNan\<rparr>
     \<in> set (the (summary_table (main (\<lambda>t. Flat [(''Close'', [Fin 5])]) [NASDAQ] False)))"
proof -
  have h: "distinct [NASDAQ]" "NASDAQ \<in> set [NASDAQ]" "snd (fetched (\<lambda>t. Flat [(''Close'', [Fin 5])]) NASDAQ) = [Fin 5]"
    by (simp_all add: fetch_data_def cleaner_def ffill_def dropna_def)
  from single_observation_row [where i = NASDAQ and sel = "[NASDAQ]" and dl = "\<lambda>t. Flat [(''Close'', [Fin 5])]", OF h] h show ?thesis
    by (simp add: round_half_even_def)
qed

subsection \<open>Cumulative returns\<close>

lemma fmul_one_left: "fmul (Fin 1) x = x"
  by (cases x) (simp_all add: signed_inf_def)

lemma np_cumprod_from_length: "length (np_cumprod_from acc xs) = length xs"
  by (induction xs arbitrary: acc) simp_all

lemma np_cumprod_length: "length (np_cumprod xs) = length xs"
  by (cases xs) (simp_all add: np_cumprod_from_length)

lemma np_cumprod_from_nth:
  "i < length xs \<Longrightarrow> np_cumprod_from acc xs ! i = foldl fmul acc (take (Suc i) xs)"
proof (induction xs arbitrary: acc i)
  case Nil
  then show ?case by simp
next
  case (Cons x xs)
  then show ?case by (cases i) simp_all
qed

lemma np_cumprod_nth:
  "i < length xs \<Longrightarrow> np_cumprod xs ! i = fprod (take (Suc i) xs)"
proof (cases xs)
  case Nil
  then show "i < length xs \<Longrightarrow> ?thesis" by simp
next
  case (Cons x ys)
  assume "i < length xs"
  with Cons show ?thesis
    by (cases i) (simp_all add: fprod_def fmul_one_left np_cumprod_from_nth)
qed

lemma cumprod_no_na:
  assumes "\<forall>x \<in> set xs. \<not> isna x"
  shows "cumprod xs = np_cumprod xs"
proof -
  from assms have m: "map (\<lambda>x. if isna x then Fin 1 else x) xs = xs"
    by (simp add: map_idI)
  have "map (\<lambda>(x, r). if isna x then NaN else r) (zip xs ys) = ys"
    if "length ys = length xs" for ys
    using that assms
  proof (induction xs arbitrary: ys)
    case Nil
    then show ?case by simp
  next
    case (Cons x xs)
    then show ?case by (cases ys) simp_all
  qed
  from this [of "np_cumprod xs"] show ?thesis
    by (simp add: cumprod_def m np_cumprod_length)
qed

lemma returns_no_na: "\<forall>x \<in> set (returns ps). \<not> isna x"
  by (auto simp: returns_def fillna_def)

lemma fadd_one_no_na: "\<not> isna x \<Longrightarrow> \<not> isna (fadd (Fin 1) x)"
  by (cases x) simp_all

lemma cum_returns_nth:
  assumes "i < length ps"
  shows "cum_returns ps ! i =
         fsub (fprod (map (\<lambda>r. fadd (Fin 1) r) (take (Suc i) (returns ps)))) (Fin 1)"
proof -
  let ?F = "map (\<lambda>r. fadd (Fin 1) r) (returns ps)"
  have "\<forall>x \<in> set ?F. \<not> isna x"
    using returns_no_na [of ps] by (auto simp: fadd_one_no_na)
  then have "cumprod ?F = np_cumprod ?F" by (rule cumprod_no_na)
  with assms show ?thesis
    by (simp add: cum_returns_def np_cumprod_length returns_length np_cumprod_nth take_map)
qed

lemma fprod_snoc: "fprod (xs @ [x]) = fmul (fprod xs) x"
  by (simp add: fprod_def)

lemma fprod_take_Suc:
  "i < length xs \<Longrightarrow> fprod (take (Suc i) xs) = fmul (fprod (take i xs)) (xs ! i)"
  by (simp add: take_Suc_conv_app_nth fprod_snoc)

text \<open>The running product behind \<open>cum_returns\<close>.\<close>

lemma factor_0: "ps \<noteq> [] \<Longrightarrow> fadd (Fin 1) (returns ps ! 0) = Fin 1"
  by (simp add: returns_0)

lemma factor_nth:
  assumes "clean_series ps" and "1 \<le> i" and "i < length ps"
  shows "fadd (Fin 1) (returns ps ! i) =
         (if price (ps ! (i - 1)) \<noteq> 0 then Fin (price (ps ! i) / price (ps ! (i - 1)))
          else if price (ps ! i) = 0 then Fin 1 else signed_inf (price (ps ! i)))"
proof -
  from assms have j: "i - 1 < length ps" by arith
  obtain a b where a: "ps ! i = Fin a" and b: "ps ! (i - 1) = Fin b"
    using clean_nth [OF assms(1)] assms(3) j by blast
  have "returns ps ! i =
      (if isna (fsub (fdiv (ps ! i) (ps ! (i - 1))) (Fin 1)) then Fin 0
       else fsub (fdiv (ps ! i) (ps ! (i - 1))) (Fin 1))"
    using assms by (simp add: returns_nth)
  then show ?thesis
    unfolding a b by (simp add: fsub_def signed_inf_def)
qed


lemma running_product_step:
  assumes "Suc i < length ps"
  shows "fprod (take (Suc (Suc i)) (map (\<lambda>r. fadd (Fin 1) r) (returns ps))) =
         fmul (fprod (take (Suc i) (map (\<lambda>r. fadd (Fin 1) r) (returns ps))))
              (fadd (Fin 1) (returns ps ! Suc i))"
  using assms by (subst fprod_take_Suc) (simp_all add: returns_length)

text \<open>
  C3, as stated, fails after a price of 0: the return at the 0 is exactly -100%,
  but the next non-zero price gives an infinite return, and the running product
  \<open>0 * inf\<close> is NaN, not 0.
\<close>

theorem cum_returns_counterexample:
  "clean_series [Fin 100, Fin 0, Fin 50] \<and>
   returns [Fin 100, Fin 0, Fin 50] ! 1 = Fin (- 1) \<and>
   cum_returns [Fin 100, Fin 0, Fin 50] ! 2 = NaN \<and>
   cum_returns [Fin 100, Fin 0, Fin 50] ! 2 \<noteq> Fin (- 1)"
  by (simp add: clean_series_def cum_returns_def returns_def fillna_def cumprod_def
      fsub_def signed_inf_def)

subsection \<open>Rolling volatility\<close>

lemma foldl_fadd_NaN: "foldl fadd NaN xs = NaN"
  by (induction xs) simp_all

lemma fadd_NaN_right: "fadd x NaN = NaN"
  by (cases x) simp_all

lemma foldl_fadd_has_NaN: "NaN \<in> set xs \<Longrightarrow> foldl fadd acc xs = NaN"
proof (induction xs arbitrary: acc)
  case Nil
  then show ?case by simp
next
  case (Cons x xs)
  show ?case
  proof (cases "x = NaN")
    case True
    then show ?thesis by (simp add: fadd_NaN_right foldl_fadd_NaN)
  next
    case False
    with Cons show ?thesis by simp
  qed
qed

lemma fadd_PInf: "fadd x y = PInf \<Longrightarrow> x = PInf \<or> y = PInf"
  by (cases x; cases y) simp_all

lemma fadd_NInf: "fadd x y = NInf \<Longrightarrow> x = NInf \<or> y = NInf"
  by (cases x; cases y) simp_all

lemma fadd_Fin: "fadd x y = Fin s \<Longrightarrow> is_fin x \<and> is_fin y"
  by (cases x; cases y) simp_all

lemma foldl_fadd_PInf: "foldl fadd acc xs = PInf \<Longrightarrow> acc = PInf \<or> PInf \<in> set xs"
proof (induction xs arbitrary: acc)
  case Nil
  then show ?case by simp
next
  case (Cons x xs)
  from Cons.prems have "foldl fadd (fadd acc x) xs = PInf" by simp
  from Cons.IH [OF this] show ?case using fadd_PInf [of acc x] by auto
qed

lemma foldl_fadd_NInf: "foldl fadd acc xs = NInf \<Longrightarrow> acc = NInf \<or> NInf \<in> set xs"
proof (induction xs arbitrary: acc)
  case Nil
  then show ?case by simp
next
  case (Cons x xs)
  from Cons.prems have "foldl fadd (fadd acc x) xs = NInf" by simp
  from Cons.IH [OF this] show ?case using fadd_NInf [of acc x] by auto
qed

lemma foldl_fadd_Fin_all: "foldl fadd acc xs = Fin s \<Longrightarrow> is_fin acc \<and> list_all is_fin xs"
proof (induction xs arbitrary: acc s)
  case Nil
  then show ?case by simp
next
  case (Cons x xs)
  from Cons.prems have "foldl fadd (fadd acc x) xs = Fin s" by simp
  from Cons.IH [OF this] obtain t where "fadd acc x = Fin t" and "list_all is_fin xs"
    by (cases "fadd acc x") auto
  with fadd_Fin [of acc x t] show ?case by simp
qed

lemma all_fin_map_price: "list_all is_fin xs \<Longrightarrow> xs = map Fin (map price xs)"
proof (induction xs)
  case Nil
  then show ?case by simp
next
  case (Cons x xs)
  then show ?case by (cases x) simp_all
qed

lemma sum_list_dev_sq_nonneg:
  "0 \<le> sum_list (map (\<lambda>x. (x - m) * (x - m)) (rs :: real list))"
  by (induction rs) simp_all

lemma sample_std_finite:
  assumes "2 \<le> length rs"
  shows "sample_std (map Fin rs) =
         Fin (sqrt (sum_list (map (\<lambda>x. (x - sum_list rs / real (length rs)) *
                                         (x - sum_list rs / real (length rs))) rs)
                    / (real (length rs) - 1)))"
proof -
  let ?m = "sum_list rs / real (length rs)"
  have m: "fdiv (fsum (map Fin rs)) (Fin (real (length rs))) = Fin ?m"
    using assms by (auto simp: fsum_map_Fin)
  have sq: "map (\<lambda>x. fmul (fsub x (Fin ?m)) (fsub x (Fin ?m))) (map Fin rs) =
            map Fin (map (\<lambda>x. (x - ?m) * (x - ?m)) rs)"
    by (simp add: fsub_def)
  have nn: "0 \<le> sum_list (map (\<lambda>x. (x - ?m) * (x - ?m)) rs)"
    by (rule sum_list_dev_sq_nonneg)
  from assms have d: "real (length rs) - 1 \<noteq> 0" "0 < real (length rs) - 1" by auto
  have "sample_std (map Fin rs) =
        fsqrt (fdiv (fsum (map (\<lambda>x. fmul (fsub x (Fin ?m)) (fsub x (Fin ?m))) (map Fin rs)))
                    (Fin (real (length rs) - 1)))"
    by (simp add: sample_std_def Let_def m del: map_map)
  also have "\<dots> = Fin (sqrt (sum_list (map (\<lambda>x. (x - ?m) * (x - ?m)) rs)
                    / (real (length rs) - 1)))"
    unfolding sq fsum_map_Fin using d nn by (simp add: not_less)
  finally show ?thesis .
qed


lemma fsub_NaN_right: "fsub x NaN = NaN"
  by (cases x) (simp_all add: fsub_def)

lemma fdiv_by_pos_not_fin:
  "0 < n \<Longrightarrow> \<not> is_fin s \<Longrightarrow> fdiv s (Fin n) = s"
  by (cases s) simp_all

lemma sample_std_not_finite:
  assumes "\<forall>x \<in> set xs. \<not> isna x" and "x \<in> set xs" and "isinf x"
  shows "sample_std xs = NaN"
proof -
  let ?s = "fsum xs"
  let ?m = "fdiv ?s (Fin (real (length xs)))"
  from assms(2) have len: "0 < real (length xs)" by (cases xs) auto
  have nf: "\<not> is_fin ?s"
  proof
    assume "is_fin ?s"
    then obtain t where "foldl fadd (Fin 0) xs = Fin t"
      by (cases ?s) (auto simp: fsum_def)
    from foldl_fadd_Fin_all [OF this] assms(2) have "is_fin x"
      by (simp add: list_all_iff)
    with assms(3) show False by (cases x) simp_all
  qed
  with len have m: "?m = ?s" by (rule fdiv_by_pos_not_fin)
  have "\<exists>y \<in> set xs. fsub y ?s = NaN"
  proof (cases ?s)
    case (Fin t)
    with nf show ?thesis by simp
  next
    case PInf
    then have "PInf \<in> set xs"
      using foldl_fadd_PInf [of "Fin 0" xs] by (simp add: fsum_def)
    then show ?thesis using PInf by (auto simp: fsub_def intro!: bexI [of _ PInf])
  next
    case NInf
    then have "NInf \<in> set xs"
      using foldl_fadd_NInf [of "Fin 0" xs] by (simp add: fsum_def)
    then show ?thesis using NInf by (auto simp: fsub_def intro!: bexI [of _ NInf])
  next
    case NaN
    with assms(2) show ?thesis by (auto simp: fsub_NaN_right)
  qed
  then obtain y where y: "y \<in> set xs" "fsub y ?s = NaN" by blast
  then have "NaN \<in> set (map (\<lambda>x. fmul (fsub x ?m) (fsub x ?m)) xs)"
    unfolding m by (force simp: image_iff)
  then have "fsum (map (\<lambda>x. fmul (fsub x ?m) (fsub x ?m)) xs) = NaN"
    unfolding fsum_def by (rule foldl_fadd_has_NaN)
  then show ?thesis by (simp add: sample_std_def Let_def)
qed

lemma window_length: "length (window w i xs) \<le> min w (Suc i)"
  unfolding window_def length_drop length_take by arith

lemma window_map: "window w i (map f xs) = map f (window w i xs)"
  by (simp add: window_def take_map drop_map)

lemma window_full:
  "w \<le> Suc i \<Longrightarrow> i < length xs \<Longrightarrow> window w i xs = take w (drop (Suc i - w) xs)"
  by (simp add: window_def drop_take)

lemma roll_var_short: "Suc i < w \<Longrightarrow> roll_var w vs i = NaN"
proof -
  assume a: "Suc i < w"
  have "length (dropna (window w i (map inf_to_nan vs))) \<le> length (window w i (map inf_to_nan vs))"
    by (simp add: dropna_def)
  also have "\<dots> \<le> Suc i" using window_length [of w i "map inf_to_nan vs"] by simp
  finally show ?thesis using a by (simp add: roll_var_def Let_def)
qed

lemma roll_var_inf:
  assumes "x \<in> set (window w i vs)" and "isinf x"
  shows "roll_var w vs i = NaN"
proof -
  let ?win = "window w i (map inf_to_nan vs)"
  from assms have "NaN \<in> set ?win"
    by (auto simp: window_map inf_to_nan_def image_iff intro!: bexI [of _ x])
  then have "length (dropna ?win) < length ?win"
    unfolding dropna_def by (intro length_filter_less [of NaN]) simp_all
  also have "\<dots> \<le> w" using window_length [of w i "map inf_to_nan vs"] by simp
  finally show ?thesis by (simp add: roll_var_def Let_def)
qed

lemma roll_var_finite:
  assumes "window w i vs = map Fin rs" and "length rs = w" and "1 < w"
  shows "roll_var w vs i =
         Fin (sum_list (map (\<lambda>x. (x - sum_list rs / real w) * (x - sum_list rs / real w)) rs)
              / (real w - 1))"
proof -
  have e: "map inf_to_nan (map Fin rs) = map Fin rs"
    by (simp add: inf_to_nan_def)
  have "map price (dropna (window w i (map inf_to_nan vs))) = map price (map Fin rs)"
    unfolding window_map assms(1) e dropna_map_Fin ..
  then have "map price (dropna (window w i (map inf_to_nan vs))) = rs"
    by (simp add: comp_def)
  with assms(2,3) show ?thesis
    by (simp add: roll_var_def Let_def)
qed

subsection \<open>The rolling volatility series\<close>

lemma zsqrt_nonneg: "zsqrt x = Fin v \<Longrightarrow> 0 \<le> v"
  by (cases x) (auto split: if_splits)

lemma fmul_100_Fin: "fmul y (Fin 100) = Fin v \<Longrightarrow> \<exists>u. y = Fin u \<and> v = u * 100"
  by (cases y) (auto simp: signed_inf_def split: if_splits)

lemma rolling_vol_nth:
  "i < length ps \<Longrightarrow>
   rolling_vol ps ! i = fmul (zsqrt (roll_var 20 (returns ps) i)) (Fin 100)"
  by (simp add: rolling_vol_def rolling_std_def returns_length)

lemma not_fin_cases: "\<not> is_fin x \<Longrightarrow> \<not> isna x \<Longrightarrow> isinf x"
  by (cases x) simp_all

lemma rolling_window:
  assumes "19 \<le> i" and "i < length ps"
  shows "window 20 i (returns ps) = take 20 (drop (i - 19) (returns ps))"
    and "length (take 20 (drop (i - 19) (returns ps))) = 20"
proof -
  from assms have "20 \<le> Suc i" "i < length (returns ps)" by (simp_all add: returns_length)
  from window_full [OF this] have "window 20 i (returns ps) = take 20 (drop (Suc i - 20) (returns ps))" .
  moreover from assms(1) have "Suc i - 20 = i - 19" by simp
  ultimately show "window 20 i (returns ps) = take 20 (drop (i - 19) (returns ps))" by simp
  from assms show "length (take 20 (drop (i - 19) (returns ps))) = 20"
    by (simp add: returns_length)
qed


lemma rolling_window_finite:
  assumes "19 \<le> i" and "i < length ps"
    and rs: "take 20 (drop (i - 19) (returns ps)) = map Fin rs"
  shows "rolling_vol ps ! i =
           Fin (sqrt (sum_list (map (\<lambda>x. (x - sum_list rs / 20) * (x - sum_list rs / 20)) rs)
                      / 19) * 100)"
    and "sample_std (take 20 (drop (i - 19) (returns ps))) =
           Fin (sqrt (sum_list (map (\<lambda>x. (x - sum_list rs / 20) * (x - sum_list rs / 20)) rs)
                      / 19))"
proof -
  let ?v = "sum_list (map (\<lambda>x. (x - sum_list rs / 20) * (x - sum_list rs / 20)) rs) / 19"
  from rolling_window(2) [OF assms(1,2)] rs have "length (map Fin rs) = 20" by simp
  then have l: "length rs = 20" by simp
  have nn: "0 \<le> ?v" using sum_list_dev_sq_nonneg [of "sum_list rs / 20" rs] by simp
  have w: "window 20 i (returns ps) = map Fin rs"
    using rolling_window(1) [OF assms(1,2)] rs by simp
  have "roll_var 20 (returns ps) i = Fin ?v"
    using roll_var_finite [OF w l] by simp
  then have "zsqrt (roll_var 20 (returns ps) i) = Fin (sqrt ?v)"
    using nn by (simp add: not_less)
  then show "rolling_vol ps ! i = Fin (sqrt ?v * 100)"
    using assms(2) by (simp add: rolling_vol_nth)
  have "sample_std (map Fin rs) = Fin (sqrt ?v)"
    using sample_std_finite [of rs] l by simp
  then show "sample_std (take 20 (drop (i - 19) (returns ps))) = Fin (sqrt ?v)"
    unfolding rs .
qed

lemma rolling_window_not_finite:
  assumes "19 \<le> i" and "i < length ps"
    and "\<not> list_all is_fin (take 20 (drop (i - 19) (returns ps)))"
  shows "rolling_vol ps ! i = NaN"
    and "sample_std (take 20 (drop (i - 19) (returns ps))) = NaN"
proof -
  let ?win = "take 20 (drop (i - 19) (returns ps))"
  from assms(3) obtain x where x: "x \<in> set ?win" "\<not> is_fin x"
    by (auto simp: list_all_iff)
  have sub: "set ?win \<subseteq> set (returns ps)"
    using set_take_subset set_drop_subset by (rule subset_trans)
  with returns_no_na [of ps] have nona: "\<forall>y \<in> set ?win. \<not> isna y" by blast
  with x have inf: "isinf x" by (intro not_fin_cases) blast+
  from x(1) have "x \<in> set (window 20 i (returns ps))"
    unfolding rolling_window(1) [OF assms(1,2)] .
  from roll_var_inf [OF this inf] have "roll_var 20 (returns ps) i = NaN" .
  then show "rolling_vol ps ! i = NaN"
    using assms(2) by (simp add: rolling_vol_nth)
  from sample_std_not_finite [OF nona x(1) inf] show "sample_std ?win = NaN" .
qed


lemma rolling_window_value:
  assumes "19 \<le> i" and "i < length ps"
  shows "rolling_vol ps ! i =
           fmul (sample_std (take 20 (drop (i - 19) (returns ps)))) (Fin 100)"
proof (cases "list_all is_fin (take 20 (drop (i - 19) (returns ps)))")
  case True
  from all_fin_map_price [OF True]
  have rs: "take 20 (drop (i - 19) (returns ps)) =
            map Fin (map price (take 20 (drop (i - 19) (returns ps))))" .
  from rolling_window_finite [OF assms rs] show ?thesis by simp
next
  case False
  from rolling_window_not_finite [OF assms False] show ?thesis by simp
qed

text \<open>
  C4. The rolling volatility series has one element per element of the series. Its
  first 19 elements are NaN (absent, not 0). For \<open>i >= 19\<close> the element is the unbiased
  sample standard deviation of \<open>return[i-19 .. i]\<close> times 100: for a window of finite
  returns that is \<open>sqrt (sum ((x - mean) ** 2) / 19) * 100\<close> with \<open>mean = sum x / 20\<close>,
  and for a window holding an infinite return both are NaN. Every element that is
  a number is not negative.
\<close>

theorem rolling_vol_correct:
  "length (rolling_vol ps) = length ps \<and>
   (\<forall>i. i < length ps \<longrightarrow>
      (i < 19 \<longrightarrow> rolling_vol ps ! i = NaN) \<and>
      (19 \<le> i \<longrightarrow>
         rolling_vol ps ! i =
           fmul (sample_std (take 20 (drop (i - 19) (returns ps)))) (Fin 100) \<and>
         (\<forall>rs. take 20 (drop (i - 19) (returns ps)) = map Fin rs \<longrightarrow>
            rolling_vol ps ! i =
              Fin (sqrt (sum_list (map (\<lambda>x. (x - sum_list rs / 20) * (x - sum_list rs / 20)) rs)
                         / 19) * 100))) \<and>
      (\<forall>v. rolling_vol ps ! i = Fin v \<longrightarrow> 0 \<le> v))"
proof (intro conjI allI impI)
  show "length (rolling_vol ps) = length ps"
    by (simp add: rolling_vol_def rolling_std_def returns_length)
next
  fix i
  assume "i < length ps" and "i < 19"
  then show "rolling_vol ps ! i = NaN"
    by (simp add: rolling_vol_nth roll_var_short)
next
  fix i
  assume "i < length ps" and "19 \<le> i"
  then show "rolling_vol ps ! i =
           fmul (sample_std (take 20 (drop (i - 19) (returns ps)))) (Fin 100)"
    by (intro rolling_window_value)
next
  fix i rs
  assume "i < length ps" and "19 \<le> i"
    and "take 20 (drop (i - 19) (returns ps)) = map Fin rs"
  then show "rolling_vol ps ! i =
      Fin (sqrt (sum_list (map (\<lambda>x. (x - sum_list rs / 20) * (x - sum_list rs / 20)) rs)
                 / 19) * 100)"
    by (intro rolling_window_finite(1))
next
  fix i v
  assume i: "i < length ps" and v: "rolling_vol ps ! i = Fin v"
  from v i have "fmul (zsqrt (roll_var 20 (returns ps) i)) (Fin 100) = Fin v"
    by (simp add: rolling_vol_nth)
  from fmul_100_Fin [OF this] obtain u where
    "zsqrt (roll_var 20 (returns ps) i) = Fin u" "v = u * 100" by blast
  with zsqrt_nonneg [of "roll_var 20 (returns ps) i" u] show "0 \<le> v" by simp
qed


lemma pct_from_constant: "pct_from (Fin 1) (replicate n (Fin 1)) = replicate n (Fin (1 / 1 - 1))"
  by (induction n) (simp_all add: fsub_def)

lemma returns_constant: "returns (replicate (Suc n) (Fin 1)) = replicate (Suc n) (Fin 0)"
  by (simp add: returns_def fillna_def pct_from_constant)

theorem rolling_vol_correct_witness:
  "length (replicate 21 (Fin 1)) = 21 \<and>
   rolling_vol (replicate 21 (Fin 1)) ! 5 = NaN \<and>
   rolling_vol (replicate 21 (Fin 1)) ! 20 = Fin 0"
proof -
  let ?ps = "replicate 21 (Fin 1)"
  have r: "returns ?ps = replicate 21 (Fin 0)"
    using returns_constant [of 20] by simp
  have w: "take 20 (drop (20 - 19) (returns ?ps)) = map Fin (replicate 20 0)"
    unfolding r by simp
  have len: "5 < length ?ps" "(5::nat) < 19" "20 < length ?ps" "(19::nat) \<le> 20"
    by simp_all
  from rolling_vol_correct [of ?ps] len(1,2) have a: "rolling_vol ?ps ! 5 = NaN"
    by blast
  from rolling_vol_correct [of ?ps] len(3,4) w
  have "rolling_vol ?ps ! 20 =
      Fin (sqrt (sum_list (map (\<lambda>x. (x - sum_list (replicate 20 0) / 20) *
                                       (x - sum_list (replicate 20 0) / 20)) (replicate 20 0))
                 / 19) * 100)"
    by blast
  then have b: "rolling_vol ?ps ! 20 = Fin 0"
    by (simp add: sum_list_replicate)
  from a b show ?thesis by simp
qed

subsection \<open>The normaliser on a zero base price, on the page\<close>

text \<open>
  C9, amended. On a non-empty clean series whose first price is 0,
  \<open>normalize_series\<close> performs the division and signals nothing: the value is NaN
  where the price is 0, \<open>+inf\<close> where it is positive and \<open>-inf\<close> where it is negative.
  The index is not excluded: its trace is on the normalised chart, and nothing is
  raised.
\<close>

theorem normalize_zero_base:
  assumes "clean_series ps" and "ps \<noteq> []" and "ps ! 0 = Fin 0"
  shows "normalize_series ps = Inr (map (\<lambda>p. signed_inf (price p)) ps) \<and>
         (\<forall>i. i < length ps \<longrightarrow>
            map (\<lambda>p. signed_inf (price p)) ps ! i =
              (if price (ps ! i) = 0 then NaN else if 0 < price (ps ! i) then PInf else NInf)) \<and>
         (\<forall>dl sel i. distinct sel \<and> i \<in> set sel \<and> snd (fetched dl i) = ps \<longrightarrow>
            (i, map (\<lambda>p. signed_inf (price p)) ps)
              \<in> set (the (norm_chart (main dl sel False))) \<and>
            uncaught (main dl sel False) = None)"
proof (intro conjI allI impI)
  from normalize_zero_base_values [OF assms]
  show v: "normalize_series ps = Inr (map (\<lambda>p. signed_inf (price p)) ps)" by simp
  with normalize_series_nonempty [OF assms(2)]
  have eq: "map (\<lambda>y. fmul (fdiv y (ps ! 0)) (Fin 100)) ps = map (\<lambda>p. signed_inf (price p)) ps"
    by simp
  {
    fix dl sel i
    assume h: "distinct sel \<and> i \<in> set sel \<and> snd (fetched dl i) = ps"
    then have ne: "sel \<noteq> []" by auto
    from h assms(2) have k: "i \<in> set (kept dl sel)" by simp
    from h have d: "distinct sel" by simp
    from main_page_plain [where dl = dl, OF d ne] obtain rows where
      pg: "norm_chart (main dl sel False) =
             Some (map (\<lambda>i. (i, map (\<lambda>y. fmul (fdiv y (snd (fetched dl i) ! 0)) (Fin 100))
                                    (snd (fetched dl i)))) (kept dl sel))"
          "uncaught (main dl sel False) = None"
      by auto
    have "(i, map (\<lambda>y. fmul (fdiv y (snd (fetched dl i) ! 0)) (Fin 100)) (snd (fetched dl i)))
          \<in> (\<lambda>i. (i, map (\<lambda>y. fmul (fdiv y (snd (fetched dl i) ! 0)) (Fin 100))
                          (snd (fetched dl i)))) ` set (kept dl sel)"
      using k by (rule imageI)
    then have "(i, map (\<lambda>p. signed_inf (price p)) ps) \<in> set (the (norm_chart (main dl sel False)))"
      using h eq by (simp add: pg)
    then show "(i, map (\<lambda>p. signed_inf (price p)) ps) \<in> set (the (norm_chart (main dl sel False)))" .
    from pg show "uncaught (main dl sel False) = None" by simp
  }
next
  fix i
  assume "i < length ps"
  then show "map (\<lambda>p. signed_inf (price p)) ps ! i =
      (if price (ps ! i) = 0 then NaN else if 0 < price (ps ! i) then PInf else NInf)"
    by (simp add: signed_inf_def)
qed

theorem normalize_zero_base_witness:
  "clean_series [Fin 0, Fin 5, Fin (- 2)] \<and> [Fin 0, Fin 5, Fin (- 2)] \<noteq> [] \<and>
   [Fin 0, Fin 5, Fin (- 2)] ! 0 = Fin 0 \<and>
   normalize_series [Fin 0, Fin 5, Fin (- 2)] = Inr [NaN, PInf, NInf] \<and>
   snd (fetched (\<lambda>t. Flat [(''Close'', [Fin 0, Fin 5, Fin (- 2)])]) NASDAQ) =
     [Fin 0, Fin 5, Fin (- 2)] \<and>
   (NASDAQ, [NaN, PInf, NInf])
     \<in> set (the (norm_chart (main (\<lambda>t. Flat [(''Close'', [Fin 0, Fin 5, Fin (- 2)])])
                                 [NASDAQ] False)))"
proof -
  let ?ps = "[Fin 0, Fin 5, Fin (- 2)]"
  let ?dl = "\<lambda>t :: string. Flat [(''Close'', ?ps)]"
  have h: "clean_series ?ps" "?ps \<noteq> []" "?ps ! 0 = Fin 0"
    by (simp_all add: clean_series_def)
  have f: "snd (fetched ?dl NASDAQ) = ?ps"
    by (simp add: fetch_data_def cleaner_def ffill_def dropna_def)
  note c = normalize_zero_base [OF h]
  from c have a: "normalize_series ?ps = Inr [NaN, PInf, NInf]"
    by (simp add: signed_inf_def)
  from c have "\<forall>dl sel i. distinct sel \<and> i \<in> set sel \<and> snd (fetched dl i) = ?ps \<longrightarrow>
            (i, map (\<lambda>p. signed_inf (price p)) ?ps)
              \<in> set (the (norm_chart (main dl sel False))) \<and>
            uncaught (main dl sel False) = None"
    by (elim conjE)
  from this [THEN spec [where x = ?dl], THEN spec [where x = "[NASDAQ]"],
      THEN spec [where x = NASDAQ]] f
  have "(NASDAQ, map (\<lambda>p. signed_inf (price p)) ?ps)
          \<in> set (the (norm_chart (main ?dl [NASDAQ] False)))"
    by simp
  then have b: "(NASDAQ, [NaN, PInf, NInf]) \<in> set (the (norm_chart (main ?dl [NASDAQ] False)))"
    by (simp add: signed_inf_def)
  from a b f h show ?thesis by simp
qed

subsection \<open>Cumulative returns after a return of -100%\<close>

lemma fmul_fin: "is_fin (fmul x y) \<Longrightarrow> is_fin x \<and> is_fin y"
  by (cases x; cases y) (simp_all add: signed_inf_def split: if_splits)

lemma fmul_zero_left: "fmul (Fin 0) y = (if is_fin y then Fin 0 else NaN)"
  by (cases y) (simp_all add: signed_inf_def)

lemma fmul_zero_right: "fmul x (Fin 0) = (if is_fin x then Fin 0 else NaN)"
  by (cases x) (simp_all add: signed_inf_def)

lemma foldl_fmul_fin:
  "is_fin (foldl fmul acc xs) \<longleftrightarrow> is_fin acc \<and> list_all is_fin xs"
proof (induction xs arbitrary: acc)
  case Nil
  then show ?case by simp
next
  case (Cons x xs)
  have "is_fin (fmul acc x) \<longleftrightarrow> is_fin acc \<and> is_fin x"
    by (cases acc; cases x) (simp_all add: signed_inf_def)
  with Cons show ?case by auto
qed

lemma fprod_fin: "is_fin (fprod xs) \<longleftrightarrow> list_all is_fin xs"
  by (simp add: fprod_def foldl_fmul_fin)

lemma list_all_take_iff:
  "k \<le> length xs \<Longrightarrow> list_all P (take k xs) \<longleftrightarrow> (\<forall>j<k. P (xs ! j))"
  by (auto simp: list_all_length)

text \<open>
  The running product of a list of factors from a factor 0 on: it is 0 while every
  factor so far is finite, and NaN from the first factor that is not.
\<close>

lemma fprod_after_zero:
  assumes "F ! k = Fin 0"
  shows "k \<le> i \<Longrightarrow> i < length F \<Longrightarrow>
         fprod (take (Suc i) F) = (if \<forall>j\<le>i. is_fin (F ! j) then Fin 0 else NaN)"
proof (induction i rule: dec_induct)
  case base
  have "fprod (take (Suc k) F) = fmul (fprod (take k F)) (Fin 0)"
    using base assms by (simp add: fprod_take_Suc)
  also have "\<dots> = (if list_all is_fin (take k F) then Fin 0 else NaN)"
    by (simp add: fmul_zero_right fprod_fin)
  also have "list_all is_fin (take k F) \<longleftrightarrow> (\<forall>j<k. is_fin (F ! j))"
    using base by (intro list_all_take_iff) simp
  also have "(\<forall>j<k. is_fin (F ! j)) \<longleftrightarrow> (\<forall>j\<le>k. is_fin (F ! j))"
    using assms by (auto simp: le_less)
  finally show ?case .
next
  case (step i)
  from step.prems have lt: "i < length F" by simp
  have all: "(\<forall>j\<le>Suc i. is_fin (F ! j)) \<longleftrightarrow> (\<forall>j\<le>i. is_fin (F ! j)) \<and> is_fin (F ! Suc i)"
    by (auto simp: le_Suc_eq)
  have "fprod (take (Suc (Suc i)) F) = fmul (fprod (take (Suc i) F)) (F ! Suc i)"
    using step.prems by (simp add: fprod_take_Suc)
  also have "\<dots> = fmul (if \<forall>j\<le>i. is_fin (F ! j) then Fin 0 else NaN) (F ! Suc i)"
    using step.IH [OF lt] by simp
  also have "\<dots> = (if \<forall>j\<le>Suc i. is_fin (F ! j) then Fin 0 else NaN)"
    unfolding all by (simp add: fmul_zero_left)
  finally show ?case .
qed

lemma fadd_one_fin: "is_fin (fadd (Fin 1) x) \<longleftrightarrow> is_fin x"
  by (cases x) simp_all

lemma cum_after_total_loss:
  assumes "returns ps ! k = Fin (- 1)" and "k \<le> i" and "i < length ps"
  shows "cum_returns ps ! i =
         (if \<forall>j\<le>i. is_fin (returns ps ! j) then Fin (- 1) else NaN)"
proof -
  let ?F = "map (\<lambda>r. fadd (Fin 1) r) (returns ps)"
  from assms have k: "k < length ps" by simp
  then have Fk: "?F ! k = Fin 0" using assms(1) by (simp add: returns_length)
  have Fj: "is_fin (?F ! j) \<longleftrightarrow> is_fin (returns ps ! j)" if "j \<le> i" for j
    using that assms(3) by (simp add: returns_length fadd_one_fin)
  from assms(3) have "i < length ?F" by (simp add: returns_length)
  from fprod_after_zero [OF Fk assms(2) this]
  have "fprod (take (Suc i) ?F) = (if \<forall>j\<le>i. is_fin (?F ! j) then Fin 0 else NaN)" .
  also have "(\<forall>j\<le>i. is_fin (?F ! j)) \<longleftrightarrow> (\<forall>j\<le>i. is_fin (returns ps ! j))"
    using Fj by blast
  finally have "fprod (take (Suc i) ?F) =
      (if \<forall>j\<le>i. is_fin (returns ps ! j) then Fin 0 else NaN)" .
  with assms(3) show ?thesis
    by (simp add: cum_returns_nth take_map fsub_def)
qed

lemma return_after_zero_price:
  assumes "clean_series ps" and "1 \<le> j" and "j < length ps"
  shows "(ps ! (j - 1) = Fin 0 \<and> ps ! j \<noteq> Fin 0 \<longrightarrow> isinf (returns ps ! j)) \<and>
         (ps ! (j - 1) \<noteq> Fin 0 \<and> ps ! j = Fin 0 \<longrightarrow> returns ps ! j = Fin (- 1))"
proof -
  from assms have j1: "j - 1 < length ps" by arith
  obtain a b where a: "ps ! j = Fin a" and b: "ps ! (j - 1) = Fin b"
    using clean_nth [OF assms(1)] assms(3) j1 by blast
  have "returns ps ! j =
      (if isna (fsub (fdiv (ps ! j) (ps ! (j - 1))) (Fin 1)) then Fin 0
       else fsub (fdiv (ps ! j) (ps ! (j - 1))) (Fin 1))"
    using assms by (simp add: returns_nth)
  then show ?thesis
    unfolding a b by (simp add: fsub_def signed_inf_def)
qed


text \<open>
  C3, amended. For every clean series the cumulative return at \<open>i\<close> is the running
  product of \<open>1 + return[j]\<close> for \<open>j = 0 .. i\<close>, minus 1. If some \<open>return[k]\<close> is exactly
  -100%, the cumulative return at every \<open>i >= k\<close> is exactly -100% when the returns
  up to \<open>i\<close> are all finite, and NaN otherwise: the factor 0 times an infinite factor is
  NaN, in whichever order they come. A return is infinite where a non-zero price
  follows a price of 0, and exactly -100% where a price of 0 follows a non-zero
  price.
\<close>

theorem cum_returns_compounding:
  assumes "clean_series ps"
  shows "(\<forall>i. i < length ps \<longrightarrow>
            cum_returns ps ! i =
              fsub (fprod (map (\<lambda>r. fadd (Fin 1) r) (take (Suc i) (returns ps)))) (Fin 1)) \<and>
         (\<forall>k i. k \<le> i \<and> i < length ps \<and> returns ps ! k = Fin (- 1) \<longrightarrow>
            cum_returns ps ! i =
              (if \<forall>j\<le>i. is_fin (returns ps ! j) then Fin (- 1) else NaN)) \<and>
         (\<forall>j. 1 \<le> j \<and> j < length ps \<longrightarrow>
            (ps ! (j - 1) = Fin 0 \<and> ps ! j \<noteq> Fin 0 \<longrightarrow> isinf (returns ps ! j)) \<and>
            (ps ! (j - 1) \<noteq> Fin 0 \<and> ps ! j = Fin 0 \<longrightarrow> returns ps ! j = Fin (- 1)))"
proof (intro conjI allI impI)
  fix i
  assume "i < length ps"
  then show "cum_returns ps ! i =
      fsub (fprod (map (\<lambda>r. fadd (Fin 1) r) (take (Suc i) (returns ps)))) (Fin 1)"
    by (rule cum_returns_nth)
next
  fix k i
  assume h: "k \<le> i \<and> i < length ps \<and> returns ps ! k = Fin (- 1)"
  then have "returns ps ! k = Fin (- 1)" "k \<le> i" "i < length ps" by simp_all
  then show "cum_returns ps ! i =
      (if \<forall>j\<le>i. is_fin (returns ps ! j) then Fin (- 1) else NaN)"
    by (rule cum_after_total_loss)
next
  fix j
  assume j: "1 \<le> j \<and> j < length ps" and "ps ! (j - 1) = Fin 0 \<and> ps ! j \<noteq> Fin 0"
  with return_after_zero_price [OF assms, of j] show "isinf (returns ps ! j)" by blast
next
  fix j
  assume j: "1 \<le> j \<and> j < length ps" and "ps ! (j - 1) \<noteq> Fin 0 \<and> ps ! j = Fin 0"
  with return_after_zero_price [OF assms, of j] show "returns ps ! j = Fin (- 1)" by blast
qed

theorem cum_returns_compounding_witness:
  "clean_series [Fin 100, Fin 0, Fin 0, Fin 50] \<and>
   returns [Fin 100, Fin 0, Fin 0, Fin 50] = [Fin 0, Fin (- 1), Fin 0, PInf] \<and>
   cum_returns [Fin 100, Fin 0, Fin 0, Fin 50] ! 2 = Fin (- 1) \<and>
   cum_returns [Fin 100, Fin 0, Fin 0, Fin 50] ! 3 = NaN"
proof -
  let ?ps = "[Fin 100, Fin 0, Fin 0, Fin 50]"
  have h: "clean_series ?ps" by (simp add: clean_series_def)
  have r: "returns ?ps = [Fin 0, Fin (- 1), Fin 0, PInf]"
    by (simp add: returns_def fillna_def fsub_def signed_inf_def)
  from cum_returns_compounding [OF h]
  have c: "\<forall>k i. k \<le> i \<and> i < length ?ps \<and> returns ?ps ! k = Fin (- 1) \<longrightarrow>
            cum_returns ?ps ! i =
              (if \<forall>j\<le>i. is_fin (returns ?ps ! j) then Fin (- 1) else NaN)"
    by (elim conjE)
  have f2: "\<forall>j\<le>2. is_fin (returns ?ps ! j)"
    unfolding r by (simp add: le_Suc_eq numeral_2_eq_2)
  have f3: "\<not> (\<forall>j\<le>3. is_fin (returns ?ps ! j))"
    unfolding r by (auto intro!: exI [of _ 3])
  from c [THEN spec [where x = 1], THEN spec [where x = 2]] r f2
  have a: "cum_returns ?ps ! 2 = Fin (- 1)" by simp
  from c [THEN spec [where x = 1], THEN spec [where x = 3]] r f3
  have b: "cum_returns ?ps ! 3 = NaN" by simp
  from h r a b show ?thesis by simp
qed

subsection \<open>The summary numbers of a series\<close>

lemma fsub_swap_sq: "fmul (fsub a x) (fsub a x) = fmul (fsub x a) (fsub x a)"
proof (cases a; cases x)
  fix u v
  assume "a = Fin u" "x = Fin v"
  moreover have "(u - v) * (u - v) = (v - u) * (v - u)" by (simp add: algebra_simps)
  ultimately show ?thesis by (simp add: fsub_def)
qed (simp_all add: fsub_def signed_inf_def)

lemma dropna_no_na: "\<forall>x \<in> set xs. \<not> isna x \<Longrightarrow> dropna xs = xs"
  by (simp add: dropna_def)

lemma pd_mean_no_na:
  "\<forall>x \<in> set xs. \<not> isna x \<Longrightarrow>
   pd_mean xs = (if xs = [] then NaN else fdiv (fsum xs) (Fin (real (length xs))))"
  by (simp add: pd_mean_def dropna_no_na Let_def)

lemma pd_std_no_na:
  assumes "\<forall>x \<in> set xs. \<not> isna x"
  shows "pd_std xs = (if length xs \<le> 1 then NaN else sample_std xs)"
proof (cases "length xs \<le> 1")
  case True
  then show ?thesis by (simp add: pd_std_def pd_var_def dropna_no_na [OF assms] Let_def)
next
  case False
  then have r: "real (length xs - 1) = real (length xs) - 1" by (simp add: of_nat_diff)
  have sq: "(\<lambda>x. fmul (fsub m x) (fsub m x)) = (\<lambda>x. fmul (fsub x m) (fsub x m))" for m
    by (rule ext) (rule fsub_swap_sq)
  from False show ?thesis
    by (simp add: pd_std_def pd_var_def dropna_no_na [OF assms] Let_def sample_std_def r sq)
qed

lemma dropna_map_filter:
  "dropna (map q xs) = map q (filter (\<lambda>i. \<not> isna (q i)) xs)"
  by (induction xs) (simp_all add: dropna_def)

lemma period_return_isna:
  assumes "clean_series ps" and "1 \<le> i" and "i < length ps"
  shows "isna (fsub (fdiv (ps ! i) (ps ! (i - 1))) (Fin 1)) \<longleftrightarrow>
         ps ! i = Fin 0 \<and> ps ! (i - 1) = Fin 0"
proof -
  from assms have j: "i - 1 < length ps" by arith
  obtain a b where a: "ps ! i = Fin a" and b: "ps ! (i - 1) = Fin b"
    using clean_nth [OF assms(1)] assms(3) j by blast
  show ?thesis unfolding a b by (simp add: fsub_def signed_inf_def)
qed

lemma dropna_pct_change:
  assumes "clean_series ps" and "ps \<noteq> []"
  shows "dropna (pct_change ps) =
         map (\<lambda>i. fsub (fdiv (ps ! i) (ps ! (i - 1))) (Fin 1))
           (filter (\<lambda>i. \<not> (ps ! i = Fin 0 \<and> ps ! (i - 1) = Fin 0)) [1..<length ps])"
proof -
  let ?q = "\<lambda>i. fsub (fdiv (ps ! i) (ps ! (i - 1))) (Fin 1)"
  have "dropna (pct_change ps) = dropna (map ?q [1..<length ps])"
    by (subst pct_change_as_map [OF assms(2)]) (simp add: dropna_def)
  also have "\<dots> = map ?q (filter (\<lambda>i. \<not> isna (?q i)) [1..<length ps])"
    by (rule dropna_map_filter)
  also have "filter (\<lambda>i. \<not> isna (?q i)) [1..<length ps] =
             filter (\<lambda>i. \<not> (ps ! i = Fin 0 \<and> ps ! (i - 1) = Fin 0)) [1..<length ps]"
  proof (rule filter_cong [OF refl])
    fix i
    assume "i \<in> set [1..<length ps]"
    then have "1 \<le> i" "i < length ps" by auto
    from period_return_isna [OF assms(1) this]
    show "(\<not> isna (?q i)) = (\<not> (ps ! i = Fin 0 \<and> ps ! (i - 1) = Fin 0))"
      by (rule arg_cong [where f = Not])
  qed
  finally show ?thesis .
qed

lemma dropna_result_no_na: "\<forall>x \<in> set (dropna xs). \<not> isna x"
  by (simp add: dropna_def)


text \<open>
  C5, as stated, fails where a price of 0 follows a price of 0: on \<open>[5, 0, 0]\<close> the
  returns for \<open>i >= 1\<close> are -100% and the \<open>0 / 0\<close> cell (0 in the return series, NaN
  before \<open>fillna\<close>), whose mean is -50% or undefined, but \<open>pct_change().dropna()\<close> drops
  that cell as well and the summary averages the single return left: -100%, with
  no volatility.
\<close>

theorem summary_of_counterexample:
  "clean_series [Fin 5, Fin 0, Fin 0] \<and> 2 \<le> length [Fin 5, Fin 0, Fin 0 :: f64] \<and>
   summary_of [Fin 5, Fin 0, Fin 0] =
     Inr \<lparr>start_price = Fin 5, end_price = Fin 0, total_return = Fin (- 100),
          avg_daily_return = Fin (- 100), volatility = NaN\<rparr> \<and>
   tl (returns [Fin 5, Fin 0, Fin 0]) = [Fin (- 1), Fin 0] \<and>
   fmul (fdiv (fsum [Fin (- 1), Fin 0]) (Fin 2)) (Fin 100) = Fin (- 50) \<and>
   tl (pct_change [Fin 5, Fin 0, Fin 0]) = [Fin (- 1), NaN] \<and>
   fmul (fdiv (fsum [Fin (- 1), NaN]) (Fin 2)) (Fin 100) = NaN"
  by (simp add: clean_series_def summary_of_nonempty dropna_def pd_mean_def pd_std_def
      pd_var_def fsum_def returns_def fillna_def fsub_def signed_inf_def)

text \<open>
  C5, amended. For a clean series with at least 2 observations the summary loop
  takes the start price from the first observation and the end price from the
  last, and the total return is \<open>(end / start - 1) * 100\<close>. The average daily return
  and the volatility are, times 100, the arithmetic mean and the unbiased sample
  standard deviation of the period returns \<open>price[i] / price[i-1] - 1\<close> over the
  \<open>i >= 1\<close> at which \<open>price[i]\<close> and \<open>price[i-1]\<close> are not both 0: the first cell of
  \<open>pct_change\<close> is dropped, not counted as a zero return, and so is every \<open>0 / 0\<close> cell.
  The average is NaN when no return is left and the volatility is NaN when fewer
  than two are left. For \<open>[100, 110, 99]\<close> the row reads start 100.00, end 99.00,
  total return -1.00 and average daily return 0.000 (and volatility 14.142).
\<close>

theorem summary_of_correct:
  assumes "clean_series ps" and "2 \<le> length ps"
  shows
    "(let kept = filter (\<lambda>i. \<not> (ps ! i = Fin 0 \<and> ps ! (i - 1) = Fin 0)) [1..<length ps];
          rs = map (\<lambda>i. fsub (fdiv (ps ! i) (ps ! (i - 1))) (Fin 1)) kept
      in summary_of ps =
           Inr \<lparr>start_price = ps ! 0,
                end_price = ps ! (length ps - 1),
                total_return = fmul (fsub (fdiv (ps ! (length ps - 1)) (ps ! 0)) (Fin 1)) (Fin 100),
                avg_daily_return =
                  (if rs = [] then NaN
                   else fmul (fdiv (fsum rs) (Fin (real (length rs)))) (Fin 100)),
                volatility =
                  (if length rs \<le> 1 then NaN else fmul (sample_std rs) (Fin 100))\<rparr> \<and>
         (\<forall>xs. rs = map Fin xs \<longrightarrow>
            (xs \<noteq> [] \<longrightarrow>
               fmul (fdiv (fsum rs) (Fin (real (length rs)))) (Fin 100) =
                 Fin (sum_list xs / real (length xs) * 100)) \<and>
            (2 \<le> length xs \<longrightarrow>
               fmul (sample_std rs) (Fin 100) =
                 Fin (sqrt (sum_list (map (\<lambda>x. (x - sum_list xs / real (length xs)) *
                                                 (x - sum_list xs / real (length xs))) xs)
                            / (real (length xs) - 1)) * 100)))) \<and>
     summary_row_of idx [Fin 100, Fin 110, Fin 99] =
       Inr \<lparr>Index = idx, Start_Price = Decimal False 10000 2, End_Price = Decimal False 9900 2,
            Total_Return = Decimal True 100 2, Avg_Daily_Return = Decimal False 0 3,
            Volatility = Decimal False 14142 3\<rparr>"
proof (intro conjI)
  let ?kept = "filter (\<lambda>i. \<not> (ps ! i = Fin 0 \<and> ps ! (i - 1) = Fin 0)) [1..<length ps]"
  let ?rs = "map (\<lambda>i. fsub (fdiv (ps ! i) (ps ! (i - 1))) (Fin 1)) ?kept"
  from assms(2) have ne: "ps \<noteq> []" by auto
  have dr: "dropna (pct_change ps) = ?rs"
    by (rule dropna_pct_change [OF assms(1) ne])
  have nona: "\<forall>x \<in> set ?rs. \<not> isna x"
    using dropna_result_no_na [of "pct_change ps"] unfolding dr .
  have gen: "summary_of ps =
           Inr \<lparr>start_price = ps ! 0,
                end_price = ps ! (length ps - 1),
                total_return = fmul (fsub (fdiv (ps ! (length ps - 1)) (ps ! 0)) (Fin 1)) (Fin 100),
                avg_daily_return =
                  (if ?rs = [] then NaN
                   else fmul (fdiv (fsum ?rs) (Fin (real (length ?rs)))) (Fin 100)),
                volatility =
                  (if length ?rs \<le> 1 then NaN else fmul (sample_std ?rs) (Fin 100))\<rparr>"
    unfolding summary_of_nonempty [OF ne] dr pd_mean_no_na [OF nona] pd_std_no_na [OF nona]
    using ne by (simp add: last_conv_nth)
  have fin: "(xs \<noteq> [] \<longrightarrow>
               fmul (fdiv (fsum ?rs) (Fin (real (length ?rs)))) (Fin 100) =
                 Fin (sum_list xs / real (length xs) * 100)) \<and>
            (2 \<le> length xs \<longrightarrow>
               fmul (sample_std ?rs) (Fin 100) =
                 Fin (sqrt (sum_list (map (\<lambda>x. (x - sum_list xs / real (length xs)) *
                                                 (x - sum_list xs / real (length xs))) xs)
                            / (real (length xs) - 1)) * 100))"
    if rs: "?rs = map Fin xs" for xs
  proof (intro conjI impI)
    assume "xs \<noteq> []"
    then show "fmul (fdiv (fsum ?rs) (Fin (real (length ?rs)))) (Fin 100) =
                 Fin (sum_list xs / real (length xs) * 100)"
      unfolding rs by (simp add: fsum_map_Fin)
  next
    assume "2 \<le> length xs"
    from sample_std_finite [OF this]
    show "fmul (sample_std ?rs) (Fin 100) =
                 Fin (sqrt (sum_list (map (\<lambda>x. (x - sum_list xs / real (length xs)) *
                                                 (x - sum_list xs / real (length xs))) xs)
                            / (real (length xs) - 1)) * 100)"
      unfolding rs by simp
  qed
  from gen fin
  show "let kept = ?kept; rs = map (\<lambda>i. fsub (fdiv (ps ! i) (ps ! (i - 1))) (Fin 1)) kept
      in summary_of ps =
           Inr \<lparr>start_price = ps ! 0,
                end_price = ps ! (length ps - 1),
                total_return = fmul (fsub (fdiv (ps ! (length ps - 1)) (ps ! 0)) (Fin 1)) (Fin 100),
                avg_daily_return =
                  (if rs = [] then NaN
                   else fmul (fdiv (fsum rs) (Fin (real (length rs)))) (Fin 100)),
                volatility =
                  (if length rs \<le> 1 then NaN else fmul (sample_std rs) (Fin 100))\<rparr> \<and>
         (\<forall>xs. rs = map Fin xs \<longrightarrow>
            (xs \<noteq> [] \<longrightarrow>
               fmul (fdiv (fsum rs) (Fin (real (length rs)))) (Fin 100) =
                 Fin (sum_list xs / real (length xs) * 100)) \<and>
            (2 \<le> length xs \<longrightarrow>
               fmul (sample_std rs) (Fin 100) =
                 Fin (sqrt (sum_list (map (\<lambda>x. (x - sum_list xs / real (length xs)) *
                                                 (x - sum_list xs / real (length xs))) xs)
                            / (real (length xs) - 1)) * 100)))"
    unfolding Let_def by blast
  have "pd_mean [Fin (1 / 10), Fin (- (1 / 10))] = Fin 0"
    using pd_mean_map_Fin [of "[1 / 10, - (1 / 10)]"] by simp
  moreover have "pd_std [Fin (1 / 10), Fin (- (1 / 10))] = Fin (sqrt (1 / 50))"
    using pd_std_map_Fin [of "[1 / 10, - (1 / 10)]"] by simp
  ultimately have "summary_of [Fin 100, Fin 110, Fin 99] =
      Inr \<lparr>start_price = Fin 100, end_price = Fin 99, total_return = Fin (- 1),
           avg_daily_return = Fin 0, volatility = Fin (sqrt (1 / 50) * 100)\<rparr>"
    by (simp add: summary_of_nonempty dropna_def fsub_def)
  then show "summary_row_of idx [Fin 100, Fin 110, Fin 99] =
       Inr \<lparr>Index = idx, Start_Price = Decimal False 10000 2, End_Price = Decimal False 9900 2,
            Total_Return = Decimal True 100 2, Avg_Daily_Return = Decimal False 0 3,
            Volatility = Decimal False 14142 3\<rparr>"
    using sqrt_example by (simp add: summary_row_of_def round_half_even_def Let_def)
qed


theorem summary_of_correct_witness:
  "clean_series [Fin 5, Fin 0, Fin 0] \<and> 2 \<le> length [Fin 5, Fin 0, Fin 0 :: f64] \<and>
   summary_of [Fin 5, Fin 0, Fin 0] =
     Inr \<lparr>start_price = Fin 5, end_price = Fin 0, total_return = Fin (- 100),
          avg_daily_return = Fin (- 100), volatility = NaN\<rparr> \<and>
   summary_row_of NASDAQ [Fin 100, Fin 110, Fin 99] =
     Inr \<lparr>Index = NASDAQ, Start_Price = Decimal False 10000 2, End_Price = Decimal False 9900 2,
          Total_Return = Decimal True 100 2, Avg_Daily_Return = Decimal False 0 3,
          Volatility = Decimal False 14142 3\<rparr>"
proof -
  let ?ps = "[Fin 5, Fin 0, Fin 0]"
  have h: "clean_series ?ps" "2 \<le> length ?ps"
    by (simp_all add: clean_series_def)
  have k: "filter (\<lambda>i. \<not> (?ps ! i = Fin 0 \<and> ?ps ! (i - 1) = Fin 0)) [1..<length ?ps] = [1]"
    by (simp add: upt_rec [of 1] upt_rec [of 2] upt_rec [of 3] numeral_3_eq_3)
  note c = summary_of_correct [OF h, of NASDAQ]
  from c have a: "summary_of ?ps =
     Inr \<lparr>start_price = Fin 5, end_price = Fin 0, total_return = Fin (- 100),
          avg_daily_return = Fin (- 100), volatility = NaN\<rparr>"
    unfolding Let_def k by (simp add: fsum_def fsub_def)
  from c have b: "summary_row_of NASDAQ [Fin 100, Fin 110, Fin 99] =
     Inr \<lparr>Index = NASDAQ, Start_Price = Decimal False 10000 2, End_Price = Decimal False 9900 2,
          Total_Return = Decimal True 100 2, Avg_Daily_Return = Decimal False 0 3,
          Volatility = Decimal False 14142 3\<rparr>"
    by (elim conjE)
  from h a b show ?thesis by simp
qed

end
